theory Spec2Isabelle
  imports Complex_Main "HOL-Library.AList" "HOL-Library.Sublist"
begin

chapter \<open>LinguaScope: the analysis pipeline and its job orchestrator\<close>

text \<open>
  A shallow embedding of the pipeline of LinguaScope: the service functions
  (\<^verbatim>\<open>detectLanguage\<close>, \<^verbatim>\<open>performAnalysis\<close>, \<^verbatim>\<open>translateAnalysis\<close>, \<^verbatim>\<open>stripMarkdown\<close>) in their
  direct-call form (\<^verbatim>\<open>services/apiService.ts\<close>) and in their proxied form (\<^verbatim>\<open>api/proxy.ts\<close>), and
  the job orchestrator with its reducer (\<^verbatim>\<open>App.tsx\<close>: \<^verbatim>\<open>jobReducer\<close>, \<^verbatim>\<open>handleJobSubmit\<close>).

  Everything outside the repository is a parameter: the model call, \<^verbatim>\<open>JSON.parse\<close>,
  \<^verbatim>\<open>String.prototype.toLowerCase\<close>, the DOM and the clock. A promise that rejects and a
  \<^verbatim>\<open>throw\<close> are the left injection of a sum; \<^verbatim>\<open>console\<close> output is not modelled.
\<close>

section \<open>Strings\<close>

text \<open>
  A JavaScript string is a sequence of UTF-16 code units; a code unit is a natural number
  (below \<open>0x10000\<close>, which no function here depends on). \<open>js\<close> turns an ASCII literal into
  such a string.
\<close>

type_synonym jschar = nat
type_synonym jsstring = "jschar list"

definition js :: "string \<Rightarrow> jsstring" where
  "js s = map of_char s"

text \<open>
  The characters \<^verbatim>\<open>String.prototype.trim\<close> removes and the regular expression class
  \<^verbatim>\<open>\s\<close> matches are the same set: ECMAScript's WhiteSpace and LineTerminator code points.
\<close>

definition isSpace :: "jschar \<Rightarrow> bool" where
  "isSpace c \<longleftrightarrow>
     c \<in> {0x09, 0x0A, 0x0B, 0x0C, 0x0D, 0x20, 0xA0, 0x1680, 0x2028, 0x2029, 0x202F, 0x205F,
           0x3000, 0xFEFF} \<or> (0x2000 \<le> c \<and> c \<le> 0x200A)"

text \<open>The class \<^verbatim>\<open>\w\<close> (no \<^verbatim>\<open>u\<close> or \<^verbatim>\<open>i\<close> flag): \<^verbatim>\<open>[A-Za-z0-9_]\<close>.\<close>

definition isWord :: "jschar \<Rightarrow> bool" where
  "isWord c \<longleftrightarrow>
     (0x41 \<le> c \<and> c \<le> 0x5A) \<or> (0x61 \<le> c \<and> c \<le> 0x7A) \<or> (0x30 \<le> c \<and> c \<le> 0x39) \<or> c = 0x5F"

definition dropWhileEnd :: "('a \<Rightarrow> bool) \<Rightarrow> 'a list \<Rightarrow> 'a list" where
  "dropWhileEnd P xs = rev (dropWhile P (rev xs))"

definition trim :: "jsstring \<Rightarrow> jsstring" where
  "trim s = dropWhileEnd isSpace (dropWhile isSpace s)"

text \<open>\<^verbatim>\<open>s.includes(sub)\<close>.\<close>

fun includes_str :: "jsstring \<Rightarrow> jsstring \<Rightarrow> bool" where
  "includes_str [] sub = (sub = [])"
| "includes_str (c # cs) sub = (take (length sub) (c # cs) = sub \<or> includes_str cs sub)"

text \<open>\<^verbatim>\<open>s.split(sep)\<close> for a one-character separator, and \<^verbatim>\<open>parts.join(sep)\<close>.\<close>

fun split_on :: "jschar \<Rightarrow> jsstring \<Rightarrow> jsstring list" where
  "split_on sep [] = [[]]"
| "split_on sep (c # cs) =
     (if c = sep then [] # split_on sep cs
      else (case split_on sep cs of [] \<Rightarrow> [[c]] | p # ps \<Rightarrow> (c # p) # ps))"

fun join :: "jsstring \<Rightarrow> jsstring list \<Rightarrow> jsstring" where
  "join sep [] = []"
| "join sep [p] = p"
| "join sep (p # q # ps) = p @ sep @ join sep (q # ps)"

section \<open>\<^verbatim>\<open>stripMarkdown\<close>\<close>

text \<open>
  \<^verbatim>\<open>
  const stripMarkdown = (text: string): string => {
      const textToClean = text.trim();
      const codeBlockRegex = /^```(?:\w+)?\s*([\s\S]*?)\s*```$/;
      const match = textToClean.match(codeBlockRegex);
      if (match && match[1]) {
          return match[1].trim();
      }
      return textToClean;
  };
  \<close>
  The two variants (direct and proxied) are the same function.

  \<open>codeBlockRegex t\<close> is the first capture group of the match, \<open>None\<close> when the expression does
  not match. The expression is anchored at both ends, so it matches exactly the strings that
  begin with a fence and end with another one (six characters at least). Between the fences
  the backtracking matcher tries its alternatives in this order: \<^verbatim>\<open>(?:\w+)?\<close> is greedy and
  takes the longest run of word characters first, \<^verbatim>\<open>\s*\<close> is greedy and then takes the longest
  run of white space, the group \<^verbatim>\<open>([\s\S]*?)\<close> is lazy and takes the shortest text after which
  only white space is left before the closing fence. That first attempt always succeeds
  (the group may hold any text), so it is the match.
\<close>

definition fence :: jsstring where
  "fence = [0x60, 0x60, 0x60]"

definition codeBlockRegex :: "jsstring \<Rightarrow> jsstring option" where
  "codeBlockRegex t =
     (if 6 \<le> length t \<and> take 3 t = fence \<and> drop (length t - 3) t = fence
      then Some (dropWhileEnd isSpace (dropWhile isSpace (dropWhile isWord
                   (take (length t - 6) (drop 3 t)))))
      else None)"

definition stripMarkdown :: "jsstring \<Rightarrow> jsstring" where
  "stripMarkdown text =
     (let textToClean = trim text in
      case codeBlockRegex textToClean of
        Some g \<Rightarrow> if g \<noteq> [] then trim g else textToClean
      | None \<Rightarrow> textToClean)"

text \<open>The fence wrapper of the round-trip property: \<^verbatim>\<open>"```" + x + "```"\<close>.\<close>

definition wrap_in_fence :: "jsstring \<Rightarrow> jsstring" where
  "wrap_in_fence x = fence @ x @ fence"

section \<open>Values, errors and the platform\<close>

text \<open>
  What \<^verbatim>\<open>JSON.parse\<close> returns. An object is an association list; the first binding of a key
  is its value (\<open>map_of\<close>), so a parser that keeps the last of two duplicate members lists it
  first or alone.
\<close>

datatype json =
    JNull
  | JBool bool
  | JNum real
  | JStr jsstring
  | JArr "json list"
  | JObj "(jsstring \<times> json) list"

text \<open>JavaScript's truthiness of a value; \<open>None\<close> is \<^verbatim>\<open>undefined\<close>.\<close>

fun truthy :: "json option \<Rightarrow> bool" where
  "truthy None = False"
| "truthy (Some JNull) = False"
| "truthy (Some (JBool b)) = b"
| "truthy (Some (JNum n)) = (n \<noteq> 0)"
| "truthy (Some (JStr s)) = (s \<noteq> [])"
| "truthy (Some (JArr xs)) = True"
| "truthy (Some (JObj kvs)) = True"

text \<open>
  What is thrown: an \<^verbatim>\<open>Error\<close> object with its message (\<^verbatim>\<open>TypeError\<close> and \<^verbatim>\<open>SyntaxError\<close>
  are instances of \<^verbatim>\<open>Error\<close>), or a value that is not an \<^verbatim>\<open>Error\<close>.
\<close>

datatype thrown = ErrorObj jsstring | NonError

text \<open>
  Reading the property \<open>k\<close> of a parsed value, for the property names this code reads
  (\<^verbatim>\<open>title\<close>, \<^verbatim>\<open>oneLineSummary\<close>, \<^verbatim>\<open>keyPoints\<close>, \<^verbatim>\<open>keyPlayers\<close>, \<^verbatim>\<open>keywords\<close>: none of them is on a
  prototype). On \<^verbatim>\<open>null\<close> the read throws a \<^verbatim>\<open>TypeError\<close>, whose message is the engine's
  (here V8's wording); on a number, a boolean, a string or an array it is \<^verbatim>\<open>undefined\<close>.
\<close>

definition typeErrorNull :: "jsstring \<Rightarrow> thrown" where
  "typeErrorNull k = ErrorObj (js ''Cannot read properties of null (reading '' @ [0x27] @ k @ [0x27] @ js '')'')"

fun getProp :: "json \<Rightarrow> jsstring \<Rightarrow> thrown + json option" where
  "getProp JNull k = Inl (typeErrorNull k)"
| "getProp (JObj kvs) k = Inr (map_of kvs k)"
| "getProp v k = Inr None"

text \<open>
  The own enumerable properties an object spread \<^verbatim>\<open>{...v}\<close> copies: the members of an object,
  the elements of an array and the code units of a string under their decimal indices, and
  nothing for \<^verbatim>\<open>null\<close>, a boolean or a number.
\<close>

fun digits :: "nat \<Rightarrow> jsstring" where
  "digits n = (if n < 10 then [0x30 + n] else digits (n div 10) @ [0x30 + n mod 10])"

fun indexed :: "nat \<Rightarrow> 'a list \<Rightarrow> (jsstring \<times> 'a) list" where
  "indexed i [] = []"
| "indexed i (x # xs) = (digits i, x) # indexed (Suc i) xs"

fun ownProps :: "json \<Rightarrow> (jsstring \<times> json) list" where
  "ownProps (JObj kvs) = kvs"
| "ownProps (JArr xs) = indexed 0 xs"
| "ownProps (JStr s) = indexed 0 (map (\<lambda>c. JStr [c]) s)"
| "ownProps v = []"

text \<open>\<^verbatim>\<open>{...a, ...b}\<close>: the properties of \<open>a\<close>, overridden and extended by those of \<open>b\<close>.\<close>

definition spread :: "json \<Rightarrow> json \<Rightarrow> json" where
  "spread a b = JObj (AList.merge (ownProps a) (ownProps b))"

text \<open>
  The model call \<^verbatim>\<open>ai.models.generateContent({model, contents, config})\<close>. A request keeps
  the model name, whether the thinking budget is set to 0, and the data the prompt embeds; the
  response schema is fixed by the kind of prompt.
\<close>

datatype prompt =
    DetectPrompt jsstring
  | AnalysisPrompt jsstring
  | TranslateAnalysisPrompt "json option" "json option" "json option" "json option"

datatype request = Request jsstring bool prompt

text \<open>
  The platform. \<open>generateContent\<close> gives \<^verbatim>\<open>response.text\<close>, or what the awaited call throws;
  every caller trims that text at once and in the same \<^verbatim>\<open>try\<close> block, so a response without
  text (the \<^verbatim>\<open>TypeError\<close> of \<^verbatim>\<open>undefined.trim()\<close>) is a left injection too.
  \<open>div_text html\<close> is the \<^verbatim>\<open>textContent\<close> and the \<^verbatim>\<open>innerText\<close> of a new \<^verbatim>\<open>div\<close> whose
  \<^verbatim>\<open>innerHTML\<close> is \<open>html\<close>, or what the DOM throws (no \<^verbatim>\<open>document\<close>).
\<close>

record platform =
  generateContent :: "request \<Rightarrow> thrown + jsstring"
  JSON_parse :: "jsstring \<Rightarrow> thrown + json"
  toLowerCase :: "jsstring \<Rightarrow> jsstring"
  div_text :: "jsstring \<Rightarrow> thrown + jsstring \<times> jsstring"

datatype AiModel = Flash | FlashLite

text \<open>
  \<^verbatim>\<open>getModelConfig\<close>: both tiers name the model \<^verbatim>\<open>gemini-2.5-flash\<close>; the lite tier sets the
  thinking budget to 0.
\<close>

definition getModelConfig :: "AiModel \<Rightarrow> jsstring \<times> bool" where
  "getModelConfig model =
     (if model = FlashLite then (js ''gemini-2.5-flash'', True)
      else (js ''gemini-2.5-flash'', False))"

section \<open>The language detector\<close>

text \<open>The test \<^verbatim>\<open>/^[a-z]{2}$/.test(langCode)\<close> (no \<^verbatim>\<open>m\<close> flag: \<^verbatim>\<open>$\<close> is the end of the string).\<close>

definition isLowerAZ :: "jschar \<Rightarrow> bool" where
  "isLowerAZ c \<longleftrightarrow> 0x61 \<le> c \<and> c \<le> 0x7A"

fun twoLetterCode :: "jsstring \<Rightarrow> bool" where
  "twoLetterCode [a, b] = (isLowerAZ a \<and> isLowerAZ b)"
| "twoLetterCode s = False"

text \<open>
  \<^verbatim>\<open>
  const extractTextSample = (html: string, maxLength: number = 1000): string => {
      const tempDiv = document.createElement('div');
      tempDiv.innerHTML = html;
      return (tempDiv.textContent || tempDiv.innerText || "").trim().substring(0, maxLength);
  };
  \<close>
\<close>

definition extractTextSample :: "platform \<Rightarrow> jsstring \<Rightarrow> nat \<Rightarrow> thrown + jsstring" where
  "extractTextSample p html maxLength =
     (case div_text p html of
        Inl e \<Rightarrow> Inl e
      | Inr (textContent, innerText) \<Rightarrow>
          Inr (take maxLength
                (trim (if textContent \<noteq> [] then textContent
                       else if innerText \<noteq> [] then innerText else []))))"

text \<open>The request of the detector: the flash model, thinking budget 0, the sample in the prompt.\<close>

definition detectRequest :: "jsstring \<Rightarrow> request" where
  "detectRequest textContent = Request (js ''gemini-2.5-flash'') True (DetectPrompt textContent)"

text \<open>
  The direct-call \<^verbatim>\<open>detectLanguage\<close>: the body of its \<^verbatim>\<open>try\<close> block, then the function with
  its \<^verbatim>\<open>catch\<close>, which returns \<^verbatim>\<open>'en'\<close>. The first component of the result lists the model
  calls issued.
\<close>

definition detectLanguage_try :: "platform \<Rightarrow> jsstring \<Rightarrow> request list \<times> (thrown + jsstring)" where
  "detectLanguage_try p contentHtml =
     (case extractTextSample p contentHtml 1000 of
        Inl e \<Rightarrow> ([], Inl e)
      | Inr textContent \<Rightarrow>
          if textContent = [] then ([], Inr (js ''ko''))
          else
            let req = detectRequest textContent in
            (case generateContent p req of
               Inl e \<Rightarrow> ([req], Inl e)
             | Inr text \<Rightarrow>
                 let langCode = toLowerCase p (trim text) in
                 ([req], Inr (if twoLetterCode langCode then langCode else js ''en''))))"

definition detectLanguage :: "platform \<Rightarrow> jsstring \<Rightarrow> request list \<times> (thrown + jsstring)" where
  "detectLanguage p contentHtml =
     (case detectLanguage_try p contentHtml of
        (calls, Inl e) \<Rightarrow> (calls, Inr (js ''en''))
      | (calls, Inr code) \<Rightarrow> (calls, Inr code))"

text \<open>
  The proxied \<^verbatim>\<open>detectLanguage\<close> takes its sample with
  \<^verbatim>\<open>contentHtml.replace(/<[^>]*>/g, '').trim().substring(0, 1000)\<close> and has no \<^verbatim>\<open>catch\<close>.
  \<open>removeTags\<close> is the replacement: at a \<^verbatim>\<open><\<close> that has a \<^verbatim>\<open>>\<close> after it, everything up to
  and with the first such \<^verbatim>\<open>>\<close> is removed; any other character stays.
\<close>

function removeTags :: "jsstring \<Rightarrow> jsstring" where
  "removeTags [] = []"
| "removeTags (c # cs) =
     (if c = 0x3C \<and> 0x3E \<in> set cs then removeTags (tl (dropWhile (\<lambda>d. d \<noteq> 0x3E) cs))
      else c # removeTags cs)"
  by pat_completeness auto
termination
proof (relation "measure length")
  fix c :: jschar and cs :: jsstring
  have "length (tl (dropWhile (\<lambda>d. d \<noteq> 0x3E) cs)) \<le> length cs"
    using length_dropWhile_le [of "\<lambda>d. d \<noteq> 0x3E" cs] by simp
  then show "(tl (dropWhile (\<lambda>d. d \<noteq> 0x3E) cs), c # cs) \<in> measure length" by simp
qed simp_all

definition proxy_detectLanguage :: "platform \<Rightarrow> jsstring \<Rightarrow> request list \<times> (thrown + jsstring)" where
  "proxy_detectLanguage p contentHtml =
     (let textContent = take 1000 (trim (removeTags contentHtml)) in
      if textContent = [] then ([], Inr (js ''ko''))
      else
        let req = detectRequest textContent in
        (case generateContent p req of
           Inl e \<Rightarrow> ([req], Inl e)
         | Inr text \<Rightarrow>
             let langCode = toLowerCase p (trim text) in
             ([req], Inr (if twoLetterCode langCode then langCode else js ''en''))))"

section \<open>The analysis client\<close>

text \<open>The messages of the direct-call variant (Hangul as code units).\<close>

definition msg_invalid_json_format :: jsstring where
  "msg_invalid_json_format =
     js ''AI '' @ [0xBD84, 0xC11D] @ js '' '' @ [0xC2E4, 0xD328] @ js '': AI'' @ [0xAC00] @ js '' ''
       @ [0xC720, 0xD6A8, 0xD55C] @ js '' JSON '' @ [0xD615, 0xC2DD, 0xC744] @ js '' ''
       @ [0xBC18, 0xD658, 0xD558, 0xC9C0] @ js '' '' @ [0xC54A, 0xC558, 0xC2B5, 0xB2C8, 0xB2E4] @ js ''.''"

definition msg_missing_fields :: jsstring where
  "msg_missing_fields = js ''AI analysis response is missing required fields.''"

definition msg_invalid_json :: jsstring where
  "msg_invalid_json =
     js ''AI '' @ [0xBD84, 0xC11D] @ js '' '' @ [0xC2E4, 0xD328] @ js '': AI'' @ [0xAC00] @ js '' ''
       @ [0xC720, 0xD6A8, 0xD55C] @ js '' JSON'' @ [0xC744] @ js '' ''
       @ [0xBC18, 0xD658, 0xD558, 0xC9C0] @ js '' '' @ [0xC54A, 0xC558, 0xC2B5, 0xB2C8, 0xB2E4] @ js ''.''"

definition msg_analysis_prefix :: jsstring where
  "msg_analysis_prefix = js ''AI '' @ [0xBD84, 0xC11D] @ js '' '' @ [0xC2E4, 0xD328] @ js '': ''"

definition msg_analysis_unknown :: jsstring where
  "msg_analysis_unknown = js ''An unknown error occurred during AI analysis.''"

definition msg_translate_analysis_prefix :: jsstring where
  "msg_translate_analysis_prefix =
     js ''AI '' @ [0xBD84, 0xC11D] @ js '' '' @ [0xBC88, 0xC5ED] @ js '' '' @ [0xC2E4, 0xD328] @ js '': ''"

definition msg_translate_analysis_unknown :: jsstring where
  "msg_translate_analysis_unknown = js ''An unknown error occurred during AI analysis translation.''"

text \<open>
  The required-field test of the direct-call \<^verbatim>\<open>performAnalysis\<close>,
  \<^verbatim>\<open>!r.title || !r.oneLineSummary || !r.keyPoints || !r.keyPlayers || !r.keywords\<close>, on a
  value that is not \<^verbatim>\<open>null\<close>: a field fails it when it is absent or falsy.
\<close>

definition requiredFields :: "jsstring list" where
  "requiredFields =
     [js ''title'', js ''oneLineSummary'', js ''keyPoints'', js ''keyPlayers'', js ''keywords'']"

fun field :: "json \<Rightarrow> jsstring \<Rightarrow> json option" where
  "field (JObj kvs) k = map_of kvs k"
| "field v k = None"

definition missingRequired :: "json \<Rightarrow> bool" where
  "missingRequired r \<longleftrightarrow>
     \<not> truthy (field r (js ''title'')) \<or> \<not> truthy (field r (js ''oneLineSummary'')) \<or>
     \<not> truthy (field r (js ''keyPoints'')) \<or> \<not> truthy (field r (js ''keyPlayers'')) \<or>
     \<not> truthy (field r (js ''keywords''))"

text \<open>
  The direct-call \<^verbatim>\<open>performAnalysis\<close>: the body of the outer \<^verbatim>\<open>try\<close>, then the function with
  its \<^verbatim>\<open>catch\<close>, which throws a new \<^verbatim>\<open>Error\<close> whose message depends on the caught one.
  \<^verbatim>\<open>
  const jsonString = stripMarkdown(response.text);
  let jsonResponse;
  try { jsonResponse = JSON.parse(jsonString); }
  catch (parseError) { throw new Error("AI ... JSON ..."); }
  if (!jsonResponse.title || ... || !jsonResponse.keywords) {
      throw new Error("AI analysis response is missing required fields.");
  }
  return jsonResponse;
  \<close>
\<close>

definition analysisRequest :: "jsstring \<Rightarrow> AiModel \<Rightarrow> request" where
  "analysisRequest contentHtml model =
     (case getModelConfig model of
        (modelName, budget0) \<Rightarrow> Request modelName budget0 (AnalysisPrompt contentHtml))"

definition performAnalysis_try :: "platform \<Rightarrow> jsstring \<Rightarrow> AiModel \<Rightarrow> thrown + json" where
  "performAnalysis_try p contentHtml model =
     (case generateContent p (analysisRequest contentHtml model) of
        Inl e \<Rightarrow> Inl e
      | Inr text \<Rightarrow>
          (case JSON_parse p (stripMarkdown text) of
             Inl parseError \<Rightarrow> Inl (ErrorObj msg_invalid_json_format)
           | Inr jsonResponse \<Rightarrow>
               if jsonResponse = JNull then Inl (typeErrorNull (js ''title''))
               else if missingRequired jsonResponse then Inl (ErrorObj msg_missing_fields)
               else Inr jsonResponse))"

definition performAnalysis :: "platform \<Rightarrow> jsstring \<Rightarrow> AiModel \<Rightarrow> thrown + json" where
  "performAnalysis p contentHtml model =
     (case performAnalysis_try p contentHtml model of
        Inr r \<Rightarrow> Inr r
      | Inl (ErrorObj m) \<Rightarrow>
          if includes_str m (js ''JSON'') \<or> includes_str m (js ''object'')
          then Inl (ErrorObj msg_invalid_json)
          else Inl (ErrorObj (msg_analysis_prefix @ m))
      | Inl NonError \<Rightarrow> Inl (ErrorObj msg_analysis_unknown))"

text \<open>
  The proxied \<^verbatim>\<open>performAnalysis\<close> ends with
  \<^verbatim>\<open>return JSON.parse(stripMarkdown(response.text));\<close> and has neither test nor \<^verbatim>\<open>catch\<close>.
\<close>

definition proxy_performAnalysis :: "platform \<Rightarrow> jsstring \<Rightarrow> AiModel \<Rightarrow> thrown + json" where
  "proxy_performAnalysis p contentHtml model =
     (case generateContent p (analysisRequest contentHtml model) of
        Inl e \<Rightarrow> Inl e
      | Inr text \<Rightarrow> JSON_parse p (stripMarkdown text))"

section \<open>The translation of an analysis\<close>

text \<open>
  \<^verbatim>\<open>
  const contentToTranslate = { oneLineSummary: analysis.oneLineSummary, keyPoints: ...,
                               keyPlayers: ..., keywords: ... };
  const response = await ai.models.generateContent({...});
  const translatedContent = JSON.parse(stripMarkdown(response.text));
  return { ...analysis, ...translatedContent };
  \<close>
  The analysis is the value an analysis call returned; reading its first field throws on
  \<^verbatim>\<open>null\<close>. The direct-call variant wraps this body in a \<^verbatim>\<open>try\<close> whose \<^verbatim>\<open>catch\<close> throws a new
  \<^verbatim>\<open>Error\<close>; the proxied variant is the body alone.
\<close>

text \<open>
  The members of \<^verbatim>\<open>translatedAnalysisSchema\<close>, the response schema of the call (its
  \<^verbatim>\<open>properties\<close> and its \<^verbatim>\<open>required\<close> list): the schema of the analysis without \<^verbatim>\<open>title\<close>.
\<close>

definition translatedFields :: "jsstring set" where
  "translatedFields = {js ''oneLineSummary'', js ''keyPoints'', js ''keyPlayers'', js ''keywords''}"

definition translateAnalysisRequest :: "json \<Rightarrow> AiModel \<Rightarrow> request" where
  "translateAnalysisRequest analysis model =
     (case getModelConfig model of
        (modelName, budget0) \<Rightarrow>
          Request modelName budget0
            (TranslateAnalysisPrompt (field analysis (js ''oneLineSummary''))
               (field analysis (js ''keyPoints'')) (field analysis (js ''keyPlayers''))
               (field analysis (js ''keywords''))))"

definition translateAnalysis_try :: "platform \<Rightarrow> json \<Rightarrow> AiModel \<Rightarrow> thrown + json" where
  "translateAnalysis_try p analysis model =
     (case getProp analysis (js ''oneLineSummary'') of
        Inl e \<Rightarrow> Inl e
      | Inr oneLineSummary \<Rightarrow>
          (case generateContent p (translateAnalysisRequest analysis model) of
             Inl e \<Rightarrow> Inl e
           | Inr text \<Rightarrow>
               (case JSON_parse p (stripMarkdown text) of
                  Inl e \<Rightarrow> Inl e
                | Inr translatedContent \<Rightarrow> Inr (spread analysis translatedContent))))"

definition translateAnalysis :: "platform \<Rightarrow> json \<Rightarrow> AiModel \<Rightarrow> thrown + json" where
  "translateAnalysis p analysis model =
     (case translateAnalysis_try p analysis model of
        Inr r \<Rightarrow> Inr r
      | Inl (ErrorObj m) \<Rightarrow> Inl (ErrorObj (msg_translate_analysis_prefix @ m))
      | Inl NonError \<Rightarrow> Inl (ErrorObj msg_translate_analysis_unknown))"

definition proxy_translateAnalysis :: "platform \<Rightarrow> json \<Rightarrow> AiModel \<Rightarrow> thrown + json" where
  "proxy_translateAnalysis p analysis model = translateAnalysis_try p analysis model"

section \<open>The job orchestrator\<close>

subsection \<open>State and reducer\<close>

datatype UiState = DEFAULT | PROCESSING | COMPLETE | ERROR

datatype JobStatus =
  QUEUED | EXTRACTING | DETECTING_LANGUAGE | ANALYZING | TRANSLATING | COMPLETED | FAILED

text \<open>
  \<^verbatim>\<open>JobResult\<close>, its nested \<^verbatim>\<open>outputs\<close> and \<^verbatim>\<open>processingTime\<close> flattened. The fields read from
  the analysis hold whatever value the analysis has there (\<open>None\<close>: \<^verbatim>\<open>undefined\<close>).
\<close>

record JobResult =
  title :: "json option"
  originalUrl :: jsstring
  originalContent :: jsstring
  processingTime_total :: real
  oneLineSummary :: "json option"
  keyPoints :: "json option"
  keyPlayers :: "json option"
  keywords' :: "json option"
  fullTranslation :: jsstring

text \<open>In \<open>error\<close> and in the payload of \<open>JOB_ERROR\<close>, \<open>None\<close> is \<^verbatim>\<open>null\<close> or \<^verbatim>\<open>undefined\<close>.\<close>

record State =
  uiState :: UiState
  jobStatus :: "JobStatus option"
  currentResult :: "JobResult option"
  error :: "jsstring option"
  inputValue :: jsstring
  jobStartTime :: "real option"

datatype Action =
    JOB_START jsstring real
  | JOB_PROGRESS JobStatus
  | JOB_SUCCESS JobResult
  | JOB_ERROR "jsstring option"
  | RESET

definition initialState :: State where
  "initialState =
     \<lparr>uiState = DEFAULT, jobStatus = None, currentResult = None, error = None,
      inputValue = [], jobStartTime = None\<rparr>"

fun jobReducer :: "State \<Rightarrow> Action \<Rightarrow> State" where
  "jobReducer state (JOB_START v startTime) =
     initialState\<lparr>uiState := PROCESSING, inputValue := v, jobStartTime := Some startTime,
                  jobStatus := Some QUEUED\<rparr>"
| "jobReducer state (JOB_PROGRESS status) = state\<lparr>jobStatus := Some status\<rparr>"
| "jobReducer state (JOB_SUCCESS r) =
     state\<lparr>uiState := COMPLETE, jobStatus := Some COMPLETED, currentResult := Some r,
           error := None\<rparr>"
| "jobReducer state (JOB_ERROR e) =
     state\<lparr>uiState := ERROR, jobStatus := Some FAILED, error := e\<rparr>"
| "jobReducer state RESET = initialState"

subsection \<open>\<^verbatim>\<open>handleJobSubmit\<close>\<close>

datatype InputMode = Url | Text

text \<open>
  The services the orchestrator imports from \<^verbatim>\<open>./services/apiService\<close>, each with the
  outcome of its promise. \<^verbatim>\<open>Promise.all\<close> rejects with the rejection that comes first in time:
  \<open>translationRejectsFirst\<close> says which one that is when both translation calls reject.
\<close>

record services =
  svc_fetchUrlContent :: "jsstring \<Rightarrow> thrown + jsstring"
  svc_detectLanguage :: "jsstring \<Rightarrow> thrown + jsstring"
  svc_performAnalysis :: "jsstring \<Rightarrow> AiModel \<Rightarrow> thrown + json"
  svc_translateAnalysis :: "json \<Rightarrow> AiModel \<Rightarrow> thrown + json"
  svc_performTranslation :: "jsstring \<Rightarrow> AiModel \<Rightarrow> thrown + jsstring"
  translationRejectsFirst :: bool

text \<open>What the orchestrator does, in order: the actions it dispatches and the services it calls.\<close>

datatype call =
    FetchUrlContent jsstring
  | DetectLanguage jsstring
  | PerformAnalysis jsstring AiModel
  | TranslateAnalysis json AiModel
  | PerformTranslation jsstring AiModel

datatype event = Dispatch Action | Call call

text \<open>\<^verbatim>\<open>value.split(/\n{2,}/)\<close>: the pieces between the maximal runs of two or more newlines.\<close>

function split_paragraphs :: "jsstring \<Rightarrow> jsstring list" where
  "split_paragraphs [] = [[]]"
| "split_paragraphs (c # cs) =
     (if c = 0x0A \<and> cs \<noteq> [] \<and> hd cs = 0x0A
      then [] # split_paragraphs (dropWhile (\<lambda>d. d = 0x0A) cs)
      else (case split_paragraphs cs of [] \<Rightarrow> [[c]] | q # qs \<Rightarrow> (c # q) # qs))"
  by pat_completeness auto
termination
proof (relation "measure length")
  fix c :: jschar and cs :: jsstring
  have "length (dropWhile (\<lambda>d. d = 0x0A) cs) \<le> length cs"
    by (rule length_dropWhile_le)
  then show "(dropWhile (\<lambda>d. d = 0x0A) cs, c # cs) \<in> measure length" by simp
qed simp_all

text \<open>
  \<^verbatim>\<open>
  const paragraphs = value.split(/\n{2,}/);
  content = paragraphs.map(p => {
    const lines = p.split('\n').join('<br>');
    return `<p>${lines}</p>`;
  }).join('');
  \<close>
\<close>

definition wrap_paragraph :: "jsstring \<Rightarrow> jsstring" where
  "wrap_paragraph p = js ''<p>'' @ join (js ''<br>'') (split_on 0x0A p) @ js ''</p>''"

definition normalizeText :: "jsstring \<Rightarrow> jsstring" where
  "normalizeText v = join [] (map wrap_paragraph (split_paragraphs v))"

text \<open>\<^verbatim>\<open>(err as Error).message\<close>.\<close>

fun message :: "thrown \<Rightarrow> jsstring option" where
  "message (ErrorObj m) = Some m"
| "message NonError = None"

definition failed :: "thrown \<Rightarrow> event list" where
  "failed err = [Dispatch (JOB_ERROR (message err))]"

definition promise_all :: "bool \<Rightarrow> thrown + 'a \<Rightarrow> thrown + 'b \<Rightarrow> thrown + 'a \<times> 'b" where
  "promise_all secondFirst x y =
     (case (x, y) of
        (Inr a, Inr b) \<Rightarrow> Inr (a, b)
      | (Inl e, Inr b) \<Rightarrow> Inl e
      | (Inr a, Inl e) \<Rightarrow> Inl e
      | (Inl e1, Inl e2) \<Rightarrow> Inl (if secondFirst then e2 else e1))"

text \<open>
  The end of the \<^verbatim>\<open>try\<close> block: the result record is built from the final analysis (reading
  \<^verbatim>\<open>title\<close> first), with \<^verbatim>\<open>totalTime = (jobEnd - jobStart) / 1000\<close>, and dispatched.
\<close>

definition finish ::
  "real \<Rightarrow> real \<Rightarrow> jsstring \<Rightarrow> jsstring \<Rightarrow> jsstring \<Rightarrow> json \<Rightarrow> event list" where
  "finish jobStart jobEnd finalUrl content fullTranslation' finalAnalysisResult =
     (case getProp finalAnalysisResult (js ''title'') of
        Inl e \<Rightarrow> failed e
      | Inr title' \<Rightarrow>
          [Dispatch (JOB_SUCCESS
             \<lparr>title = title', originalUrl = finalUrl, originalContent = content,
              processingTime_total = (jobEnd - jobStart) / 1000,
              oneLineSummary = field finalAnalysisResult (js ''oneLineSummary''),
              keyPoints = field finalAnalysisResult (js ''keyPoints''),
              keyPlayers = field finalAnalysisResult (js ''keyPlayers''),
              keywords' = field finalAnalysisResult (js ''keywords''),
              fullTranslation = fullTranslation'\<rparr>)])"

text \<open>The steps after the content is there: detection, analysis, translation if needed.\<close>

definition process ::
  "services \<Rightarrow> AiModel \<Rightarrow> real \<Rightarrow> real \<Rightarrow> jsstring \<Rightarrow> jsstring \<Rightarrow> event list" where
  "process sv model jobStart jobEnd finalUrl content =
     Dispatch (JOB_PROGRESS DETECTING_LANGUAGE) # Call (DetectLanguage content) #
     (case svc_detectLanguage sv content of
        Inl e \<Rightarrow> failed e
      | Inr language \<Rightarrow>
          Dispatch (JOB_PROGRESS ANALYZING) # Call (PerformAnalysis content model) #
          (case svc_performAnalysis sv content model of
             Inl e \<Rightarrow> failed e
           | Inr rawAnalysisResult \<Rightarrow>
               if language = js ''ko''
               then finish jobStart jobEnd finalUrl content content rawAnalysisResult
               else
                 Dispatch (JOB_PROGRESS TRANSLATING) #
                 Call (TranslateAnalysis rawAnalysisResult model) #
                 Call (PerformTranslation content model) #
                 (case promise_all (translationRejectsFirst sv)
                         (svc_translateAnalysis sv rawAnalysisResult model)
                         (svc_performTranslation sv content model) of
                    Inl e \<Rightarrow> failed e
                  | Inr (translatedAnalysis, translatedContent) \<Rightarrow>
                      finish jobStart jobEnd finalUrl content translatedContent
                        translatedAnalysis)))"

text \<open>
  \<^verbatim>\<open>handleJobSubmit(value, mode)\<close>, with the model tier of the component's state and the two
  readings of \<^verbatim>\<open>performance.now()\<close>.
\<close>

definition handleJobSubmit ::
  "services \<Rightarrow> AiModel \<Rightarrow> real \<Rightarrow> real \<Rightarrow> jsstring \<Rightarrow> InputMode \<Rightarrow> event list" where
  "handleJobSubmit sv model jobStart jobEnd v mode =
     Dispatch (JOB_START v jobStart) #
     (if mode = Url
      then Dispatch (JOB_PROGRESS EXTRACTING) # Call (FetchUrlContent v) #
           (case svc_fetchUrlContent sv v of
              Inl e \<Rightarrow> failed e
            | Inr content \<Rightarrow> process sv model jobStart jobEnd v content)
      else process sv model jobStart jobEnd [] (normalizeText v))"

subsection \<open>What is observed of a job\<close>

fun dispatched :: "event list \<Rightarrow> Action list" where
  "dispatched [] = []"
| "dispatched (Dispatch a # es) = a # dispatched es"
| "dispatched (Call c # es) = dispatched es"

text \<open>The states the reducer goes through, one after each action.\<close>

fun run :: "State \<Rightarrow> Action list \<Rightarrow> State list" where
  "run s [] = []"
| "run s (a # as) = jobReducer s a # run (jobReducer s a) as"

definition statuses :: "State \<Rightarrow> event list \<Rightarrow> JobStatus option list" where
  "statuses s evs = map jobStatus (run s (dispatched evs))"

text \<open>The result of a job that succeeded: the payload of a final \<open>JOB_SUCCESS\<close>.\<close>

definition jobResult :: "event list \<Rightarrow> JobResult option" where
  "jobResult evs =
     (case last evs of Dispatch (JOB_SUCCESS r) \<Rightarrow> Some r | _ \<Rightarrow> None)"

definition status_order :: "JobStatus list" where
  "status_order = [QUEUED, EXTRACTING, DETECTING_LANGUAGE, ANALYZING, TRANSLATING, COMPLETED]"

fun rank :: "JobStatus option \<Rightarrow> nat" where
  "rank (Some QUEUED) = 0"
| "rank (Some EXTRACTING) = 1"
| "rank (Some DETECTING_LANGUAGE) = 2"
| "rank (Some ANALYZING) = 3"
| "rank (Some TRANSLATING) = 4"
| "rank (Some COMPLETED) = 5"
| "rank (Some FAILED) = 6"
| "rank None = 7"

text \<open>The content a job works on, and the language detected for it.\<close>

definition jobContent :: "services \<Rightarrow> jsstring \<Rightarrow> InputMode \<Rightarrow> thrown + jsstring" where
  "jobContent sv v mode = (if mode = Url then svc_fetchUrlContent sv v else Inr (normalizeText v))"

section \<open>Raw text, as the specification reads it\<close>

text \<open>
  The specification's words, for comparison with \<open>normalizeText\<close>: a raw text is a sequence
  of lines; a blank line is an empty line; the blocks are the maximal groups of consecutive
  lines that are not blank, which is what blank lines separate. Each block becomes one
  paragraph, its lines joined by line breaks.
\<close>

fun spec_blocks :: "jsstring list \<Rightarrow> jsstring list list" where
  "spec_blocks [] = []"
| "spec_blocks (l # ls) =
     (if l = [] then spec_blocks ls
      else if ls \<noteq> [] \<and> hd ls \<noteq> []
        then (case spec_blocks ls of [] \<Rightarrow> [[l]] | b # bs \<Rightarrow> (l # b) # bs)
        else [l] # spec_blocks ls)"

definition spec_paragraphs :: "jsstring list list \<Rightarrow> jsstring" where
  "spec_paragraphs bs = concat (map (\<lambda>b. js ''<p>'' @ join (js ''<br>'') b @ js ''</p>'') bs)"

text \<open>The lines of a piece of text that are not blank.\<close>

definition nonblank_lines :: "jsstring \<Rightarrow> jsstring list" where
  "nonblank_lines p = filter (\<lambda>l. l \<noteq> []) (split_on 0x0A p)"

section \<open>Example environments\<close>

text \<open>
  Concrete platforms and services, at which the theorems below are instantiated. The model
  always answers \<open>reply\<close>; \<open>ascii_lower\<close> is \<^verbatim>\<open>toLowerCase\<close> on ASCII strings; \<open>ex_parse\<close> is
  \<^verbatim>\<open>JSON.parse\<close> on the few texts listed and rejects every other text; the DOM gives the text
  left when the tags are removed.
\<close>

definition ascii_lower :: "jsstring \<Rightarrow> jsstring" where
  "ascii_lower s = map (\<lambda>c. if 0x41 \<le> c \<and> c \<le> 0x5A then c + 0x20 else c) s"

definition ex_analysis_text :: jsstring where
  \<open>ex_analysis_text =
     js ''{"title":"T","oneLineSummary":"S","keyPoints":["P"],"keyPlayers":["K"],"keywords":["W"]}''\<close>

definition ex_analysis :: json where
  "ex_analysis =
     JObj [(js ''title'', JStr (js ''T'')), (js ''oneLineSummary'', JStr (js ''S'')),
           (js ''keyPoints'', JArr [JStr (js ''P'')]), (js ''keyPlayers'', JArr [JStr (js ''K'')]),
           (js ''keywords'', JArr [JStr (js ''W'')])]"

definition ex_untitled_text :: jsstring where
  \<open>ex_untitled_text =
     js ''{"title":"","oneLineSummary":"S","keyPoints":["P"],"keyPlayers":["K"],"keywords":["W"]}''\<close>

definition ex_untitled :: json where
  "ex_untitled =
     JObj [(js ''title'', JStr []), (js ''oneLineSummary'', JStr (js ''S'')),
           (js ''keyPoints'', JArr [JStr (js ''P'')]), (js ''keyPlayers'', JArr [JStr (js ''K'')]),
           (js ''keywords'', JArr [JStr (js ''W'')])]"

definition ex_translated_text :: jsstring where
  \<open>ex_translated_text =
     js ''{"oneLineSummary":"s","keyPoints":["p"],"keyPlayers":["k"],"keywords":["w"]}''\<close>

definition ex_translated :: json where
  "ex_translated =
     JObj [(js ''oneLineSummary'', JStr (js ''s'')), (js ''keyPoints'', JArr [JStr (js ''p'')]),
           (js ''keyPlayers'', JArr [JStr (js ''k'')]), (js ''keywords'', JArr [JStr (js ''w'')])]"

definition ex_retitled_text :: jsstring where
  \<open>ex_retitled_text = js ''{"title":"X"}''\<close>

definition ex_retitled :: json where
  "ex_retitled = JObj [(js ''title'', JStr (js ''X''))]"

text \<open>A reply in a fenced block with the language tag \<^verbatim>\<open>json\<close>.\<close>

definition fenced_json :: "jsstring \<Rightarrow> jsstring" where
  "fenced_json body = fence @ js ''json'' @ [0x0A] @ body @ [0x0A] @ fence"

definition ex_parse :: "jsstring \<Rightarrow> thrown + json" where
  "ex_parse s =
     (if s = ex_analysis_text then Inr ex_analysis
      else if s = ex_untitled_text then Inr ex_untitled
      else if s = ex_translated_text then Inr ex_translated
      else if s = ex_retitled_text then Inr ex_retitled
      else Inl (ErrorObj (js ''Unexpected token'')))"

definition ex_platform :: "jsstring \<Rightarrow> platform" where
  "ex_platform reply =
     \<lparr>generateContent = (\<lambda>req. Inr reply), JSON_parse = ex_parse, toLowerCase = ascii_lower,
      div_text = (\<lambda>html. Inr (removeTags html, removeTags html))\<rparr>"

text \<open>A platform whose DOM and whose model call both throw.\<close>

definition ex_broken_platform :: platform where
  "ex_broken_platform =
     \<lparr>generateContent = (\<lambda>req. Inl (ErrorObj (js ''Failed to fetch''))), JSON_parse = ex_parse,
      toLowerCase = ascii_lower,
      div_text = (\<lambda>html. Inl (ErrorObj (js ''document is not defined'')))\<rparr>"

definition ex_offline_platform :: platform where
  "ex_offline_platform =
     \<lparr>generateContent = (\<lambda>req. Inl (ErrorObj (js ''Failed to fetch''))), JSON_parse = ex_parse,
      toLowerCase = ascii_lower, div_text = (\<lambda>html. Inr (removeTags html, removeTags html))\<rparr>"

text \<open>
  Services that all succeed: the detector says \<open>language\<close>, the analysis is \<open>ex_analysis\<close>, its
  translation replaces the four translated fields.
\<close>

definition ex_services :: "jsstring \<Rightarrow> services" where
  "ex_services language =
     \<lparr>svc_fetchUrlContent = (\<lambda>url. Inr (js ''<p>Hi</p>'')),
      svc_detectLanguage = (\<lambda>content. Inr language),
      svc_performAnalysis = (\<lambda>content model. Inr ex_analysis),
      svc_translateAnalysis = (\<lambda>analysis model. Inr (spread analysis ex_translated)),
      svc_performTranslation = (\<lambda>content model. Inr (js ''<p>T</p>'')),
      translationRejectsFirst = False\<rparr>"

text \<open>The same services with the detector saying \<^verbatim>\<open>en\<close> and a translation that returns its input.\<close>

definition ex_echo_services :: services where
  "ex_echo_services =
     (ex_services (js ''en''))\<lparr>svc_performTranslation := (\<lambda>content model. Inr content)\<rparr>"

text \<open>The raw text of the first end-to-end scenario.\<close>

definition hello_text :: jsstring where
  "hello_text = js ''Hello world.'' @ [0x0A, 0x0A] @ js ''Second paragraph.''"

chapter \<open>Properties\<close>

section \<open>Lists and strings\<close>

lemma dropWhile_same_iff: "dropWhile P xs = xs \<longleftrightarrow> xs = [] \<or> \<not> P (hd xs)"
proof (cases xs)
  case Nil then show ?thesis by simp
next
  case (Cons a as)
  have le: "length (dropWhile P as) \<le> length as" by (rule length_dropWhile_le)
  have "dropWhile P as \<noteq> a # as"
  proof
    assume "dropWhile P as = a # as"
    then have "length (dropWhile P as) = Suc (length as)" by simp
    with le show False by simp
  qed
  with Cons show ?thesis by simp
qed

lemma dropWhileEnd_same_iff: "dropWhileEnd P xs = xs \<longleftrightarrow> xs = [] \<or> \<not> P (last xs)"
proof -
  have "dropWhileEnd P xs = xs \<longleftrightarrow> dropWhile P (rev xs) = rev xs"
    unfolding dropWhileEnd_def by (rule rev_swap)
  also have "\<dots> \<longleftrightarrow> rev xs = [] \<or> \<not> P (hd (rev xs))" by (rule dropWhile_same_iff)
  also have "\<dots> \<longleftrightarrow> xs = [] \<or> \<not> P (last xs)" by (cases "xs = []") (simp_all add: hd_rev)
  finally show ?thesis .
qed

lemma length_dropWhileEnd_le: "length (dropWhileEnd P xs) \<le> length xs"
proof -
  have "length (dropWhile P (rev xs)) \<le> length (rev xs)" by (rule length_dropWhile_le)
  then show ?thesis by (simp add: dropWhileEnd_def)
qed

lemma dropWhile_length_same:
  assumes "length (dropWhile P xs) = length xs"
  shows "dropWhile P xs = xs"
proof (cases xs)
  case Nil then show ?thesis by simp
next
  case (Cons a as)
  have "length (dropWhile P as) \<le> length as" by (rule length_dropWhile_le)
  with Cons assms show ?thesis by (auto split: if_splits)
qed

lemma dropWhileEnd_decomp: "dropWhileEnd P xs @ rev (takeWhile P (rev xs)) = xs"
proof -
  have "rev (takeWhile P (rev xs) @ dropWhile P (rev xs)) = rev (rev xs)"
    by (simp only: takeWhile_dropWhile_id)
  then show ?thesis by (simp only: rev_append rev_rev_ident dropWhileEnd_def)
qed

lemma last_dropWhileEnd:
  assumes "dropWhileEnd P xs \<noteq> []"
  shows "\<not> P (last (dropWhileEnd P xs))"
proof -
  from assms have ne: "dropWhile P (rev xs) \<noteq> []" by (simp add: dropWhileEnd_def)
  then have "\<not> P (hd (dropWhile P (rev xs)))" by (rule hd_dropWhile)
  with ne show ?thesis by (simp add: dropWhileEnd_def last_rev)
qed

lemma hd_dropWhileEnd:
  assumes "dropWhileEnd P xs \<noteq> []"
  shows "hd (dropWhileEnd P xs) = hd xs"
proof -
  have "hd (dropWhileEnd P xs @ rev (takeWhile P (rev xs))) = hd (dropWhileEnd P xs)"
    using assms by (rule hd_append2)
  then show ?thesis by (simp only: dropWhileEnd_decomp)
qed

lemma trim_same_iff: "trim s = s \<longleftrightarrow> s = [] \<or> (\<not> isSpace (hd s) \<and> \<not> isSpace (last s))"
proof (cases "s = []")
  case True then show ?thesis by (simp add: trim_def dropWhileEnd_def)
next
  case False
  show ?thesis
  proof
    assume eq: "trim s = s"
    have "length (dropWhileEnd isSpace (dropWhile isSpace s)) \<le> length (dropWhile isSpace s)"
      by (rule length_dropWhileEnd_le)
    moreover have "length (dropWhile isSpace s) \<le> length s" by (rule length_dropWhile_le)
    ultimately have "length (dropWhile isSpace s) = length s"
      using eq unfolding trim_def by simp
    then have a: "dropWhile isSpace s = s" by (rule dropWhile_length_same)
    with eq have b: "dropWhileEnd isSpace s = s" by (simp add: trim_def)
    from a b False show "s = [] \<or> (\<not> isSpace (hd s) \<and> \<not> isSpace (last s))"
      by (simp add: dropWhile_same_iff dropWhileEnd_same_iff)
  next
    assume "s = [] \<or> (\<not> isSpace (hd s) \<and> \<not> isSpace (last s))"
    with False have "dropWhile isSpace s = s" "dropWhileEnd isSpace s = s"
      by (simp_all add: dropWhile_same_iff dropWhileEnd_same_iff)
    then show "trim s = s" by (simp add: trim_def)
  qed
qed

lemma trim_dropWhileEnd_dropWhile:
  "trim (dropWhileEnd isSpace (dropWhile isSpace s)) = dropWhileEnd isSpace (dropWhile isSpace s)"
proof (cases "dropWhileEnd isSpace (dropWhile isSpace s) = []")
  case True
  have "trim [] = []" by (simp add: trim_def dropWhileEnd_def)
  with True show ?thesis by simp
next
  case False
  then have l: "\<not> isSpace (last (dropWhileEnd isSpace (dropWhile isSpace s)))"
    by (rule last_dropWhileEnd)
  from False have h: "hd (dropWhileEnd isSpace (dropWhile isSpace s)) = hd (dropWhile isSpace s)"
    by (rule hd_dropWhileEnd)
  from False have "dropWhile isSpace s \<noteq> []"
    by (cases "dropWhile isSpace s = []") (simp_all add: dropWhileEnd_def)
  then have "\<not> isSpace (hd (dropWhile isSpace s))" by (rule hd_dropWhile)
  with h l show ?thesis by (simp add: trim_same_iff)
qed

text \<open>
  For the evaluation of the functions at concrete inputs: the definitions that each of them
  unfolds to.
\<close>

lemmas eval_trim = isSpace_def trim_def dropWhileEnd_def

lemmas eval_stripMarkdown = isWord_def fence_def codeBlockRegex_def stripMarkdown_def Let_def

lemmas eval_detectLanguage =
  detectRequest_def detectLanguage_def detectLanguage_try_def extractTextSample_def
  isLowerAZ_def Let_def

lemmas eval_handleJobSubmit =
  handleJobSubmit_def process_def finish_def failed_def promise_all_def normalizeText_def
  wrap_paragraph_def

lemmas eval_ex_platform =
  ex_platform_def ex_parse_def ascii_lower_def ex_analysis_text_def ex_analysis_def
  ex_untitled_text_def ex_untitled_def ex_translated_text_def ex_translated_def
  ex_retitled_text_def ex_retitled_def

lemmas eval_ex_services =
  ex_services_def ex_analysis_def ex_translated_def spread_def AList.merge_def

section \<open>\<^verbatim>\<open>stripMarkdown\<close> on a fenced text\<close>

lemma trim_fenced: "trim (fence @ x @ fence) = fence @ x @ fence"
  by (simp add: trim_same_iff fence_def isSpace_def)

lemma codeBlockRegex_fenced:
  "codeBlockRegex (fence @ x @ fence) =
     Some (dropWhileEnd isSpace (dropWhile isSpace (dropWhile isWord x)))"
  by (simp add: codeBlockRegex_def fence_def)

text \<open>
  The match that \<open>codeBlockRegex\<close> computes is a match of the expression: the text is the
  opening fence, word characters, white space, the group, white space, the closing fence.
\<close>

lemma codeBlockRegex_is_match:
  assumes "codeBlockRegex t = Some g"
  shows "\<exists>w s s'. t = fence @ w @ s @ g @ s' @ fence \<and> (\<forall>c\<in>set w. isWord c) \<and>
            (\<forall>c\<in>set s. isSpace c) \<and> (\<forall>c\<in>set s'. isSpace c)"
proof -
  let ?m = "take (length t - 6) (drop 3 t)"
  let ?a = "dropWhile isWord ?m"
  let ?b = "dropWhile isSpace ?a"
  from assms have len: "6 \<le> length t" and op: "take 3 t = fence"
    and cl: "drop (length t - 3) t = fence" and g: "g = dropWhileEnd isSpace ?b"
    by (auto simp: codeBlockRegex_def split: if_splits)
  have "t = take 3 t @ drop 3 t" by simp
  also have "drop 3 t = ?m @ drop (length t - 6) (drop 3 t)"
    by (rule append_take_drop_id [symmetric])
  also have "drop (length t - 6) (drop 3 t) = drop (length t - 3) t" using len by simp
  finally have t: "t = fence @ ?m @ fence" using op cl by simp
  have m: "?m = takeWhile isWord ?m @ takeWhile isSpace ?a @ ?b" by simp
  have b: "?b = g @ rev (takeWhile isSpace (rev ?b))" using g by (simp add: dropWhileEnd_decomp)
  have "t = fence @ takeWhile isWord ?m @ takeWhile isSpace ?a @ g
              @ rev (takeWhile isSpace (rev ?b)) @ fence"
    using t m b by (metis append.assoc)
  moreover have "\<forall>c\<in>set (takeWhile isWord ?m). isWord c" by (auto dest: set_takeWhileD)
  moreover have "\<forall>c\<in>set (takeWhile isSpace ?a). isSpace c" by (auto dest: set_takeWhileD)
  moreover have "\<forall>c\<in>set (rev (takeWhile isSpace (rev ?b))). isSpace c"
    by (auto dest: set_takeWhileD)
  ultimately show ?thesis by blast
qed

lemma codeBlock_group_same_iff:
  "dropWhileEnd isSpace (dropWhile isSpace (dropWhile isWord x)) = x \<longleftrightarrow>
     x = [] \<or> (\<not> isWord (hd x) \<and> \<not> isSpace (hd x) \<and> \<not> isSpace (last x))"
  (is "?g = x \<longleftrightarrow> ?c")
proof (cases "x = []")
  case True then show ?thesis by (simp add: dropWhileEnd_def)
next
  case False
  show ?thesis
  proof
    assume eq: "?g = x"
    have 1: "length ?g \<le> length (dropWhile isSpace (dropWhile isWord x))"
      by (rule length_dropWhileEnd_le)
    have 2: "length (dropWhile isSpace (dropWhile isWord x)) \<le> length (dropWhile isWord x)"
      by (rule length_dropWhile_le)
    have 3: "length (dropWhile isWord x) \<le> length x" by (rule length_dropWhile_le)
    from eq 1 2 3 have "length (dropWhile isWord x) = length x" by simp
    then have a: "dropWhile isWord x = x" by (rule dropWhile_length_same)
    from eq 1 2 3 a have "length (dropWhile isSpace x) = length x" by simp
    then have b: "dropWhile isSpace x = x" by (rule dropWhile_length_same)
    from eq a b have c: "dropWhileEnd isSpace x = x" by simp
    from a b c False show ?c
      by (simp add: dropWhile_same_iff dropWhileEnd_same_iff)
  next
    assume ?c
    with False have "dropWhile isWord x = x" "dropWhile isSpace x = x"
      "dropWhileEnd isSpace x = x"
      by (simp_all add: dropWhile_same_iff dropWhileEnd_same_iff)
    then show "?g = x" by simp
  qed
qed

lemma stripMarkdown_fenced:
  "stripMarkdown (fence @ x @ fence) =
     (let g = dropWhileEnd isSpace (dropWhile isSpace (dropWhile isWord x))
      in if g \<noteq> [] then g else fence @ x @ fence)"
  by (simp add: stripMarkdown_def trim_fenced codeBlockRegex_fenced Let_def
      trim_dropWhileEnd_dropWhile)

text \<open>
  C7. Claimed: for every text \<open>x\<close> that does not contain the fence delimiter,
  \<open>stripMarkdown\<close> of \<open>x\<close> wrapped in a fence is \<open>x\<close>. The text \<^verbatim>\<open>abc\<close> contains no fence, and
  its wrapping is returned as it is, fences included: the optional language tag of the
  expression takes \<^verbatim>\<open>abc\<close>, the group is empty, and an empty group counts as no match.
\<close>

theorem stripMarkdown_roundtrip_counterexample:
  "\<not> includes_str (js ''abc'') fence \<and>
   stripMarkdown (wrap_in_fence (js ''abc'')) = wrap_in_fence (js ''abc'') \<and>
   stripMarkdown (wrap_in_fence (js ''abc'')) \<noteq> js ''abc''"
  by (simp add: js_def wrap_in_fence_def eval_stripMarkdown eval_trim)

text \<open>
  C7, amended. \<open>stripMarkdown\<close> of \<open>x\<close> wrapped in a fence is \<open>x\<close> exactly when \<open>x\<close> is not
  empty, begins with neither a word character (which the expression reads as the language
  tag) nor white space, and does not end with white space (which is trimmed). This holds
  whether or not \<open>x\<close> contains a fence.
\<close>

theorem stripMarkdown_roundtrip_iff:
  "stripMarkdown (wrap_in_fence x) = x \<longleftrightarrow>
     x \<noteq> [] \<and> \<not> isWord (hd x) \<and> \<not> isSpace (hd x) \<and> \<not> isSpace (last x)"
proof (cases "dropWhileEnd isSpace (dropWhile isSpace (dropWhile isWord x)) = []")
  case True
  then have "stripMarkdown (fence @ x @ fence) = fence @ x @ fence"
    by (simp add: stripMarkdown_fenced)
  moreover have "fence @ x @ fence \<noteq> x" by (simp add: fence_def)
  moreover have "\<not> (x \<noteq> [] \<and> \<not> isWord (hd x) \<and> \<not> isSpace (hd x) \<and> \<not> isSpace (last x))"
    using True codeBlock_group_same_iff [of x] by auto
  ultimately show ?thesis by (simp add: wrap_in_fence_def)
next
  case False
  then have "stripMarkdown (fence @ x @ fence) =
      dropWhileEnd isSpace (dropWhile isSpace (dropWhile isWord x))"
    by (simp add: stripMarkdown_fenced)
  moreover have "x \<noteq> []" using False by (cases "x = []") (simp_all add: dropWhileEnd_def)
  ultimately show ?thesis using codeBlock_group_same_iff [of x] by (simp add: wrap_in_fence_def)
qed

theorem stripMarkdown_roundtrip_witness:
  "stripMarkdown (wrap_in_fence (js ''<p>Hi</p>'')) = js ''<p>Hi</p>''"
  using stripMarkdown_roundtrip_iff [of "js ''<p>Hi</p>''"]
  by (simp add: js_def isWord_def isSpace_def)

section \<open>The language detector\<close>

lemma twoLetterCode_iff:
  "twoLetterCode c \<longleftrightarrow> length c = 2 \<and> (\<forall>x\<in>set c. 0x61 \<le> x \<and> x \<le> 0x7A)"
proof (cases c)
  case Nil then show ?thesis by simp
next
  case (Cons a as)
  show ?thesis
  proof (cases as)
    case Nil with Cons show ?thesis by simp
  next
    case (Cons b bs)
    with \<open>c = a # as\<close> show ?thesis by (cases bs) (auto simp: isLowerAZ_def)
  qed
qed

text \<open>
  C5. In both variants, once the model has answered with a text, the detector returns the
  trimmed and lowercased answer when that has length 2 and each of its characters is one of
  the letters \<^verbatim>\<open>a\<close> to \<^verbatim>\<open>z\<close>, and \<^verbatim>\<open>en\<close> otherwise: a value, never an error.
\<close>

theorem detectLanguage_coercion:
  "(extractTextSample p html 1000 = Inr sample \<and> sample \<noteq> [] \<and>
    generateContent p (detectRequest sample) = Inr text
      \<longrightarrow> snd (detectLanguage p html) =
            Inr (if length (toLowerCase p (trim text)) = 2 \<and>
                    (\<forall>x\<in>set (toLowerCase p (trim text)). 0x61 \<le> x \<and> x \<le> 0x7A)
                 then toLowerCase p (trim text) else js ''en'')) \<and>
   (take 1000 (trim (removeTags html)) = sample \<and> sample \<noteq> [] \<and>
    generateContent p (detectRequest sample) = Inr text
      \<longrightarrow> snd (proxy_detectLanguage p html) =
            Inr (if length (toLowerCase p (trim text)) = 2 \<and>
                    (\<forall>x\<in>set (toLowerCase p (trim text)). 0x61 \<le> x \<and> x \<le> 0x7A)
                 then toLowerCase p (trim text) else js ''en''))"
proof -
  have c: "twoLetterCode (toLowerCase p (trim text)) \<longleftrightarrow>
      length (toLowerCase p (trim text)) = 2 \<and>
      (\<forall>x\<in>set (toLowerCase p (trim text)). 0x61 \<le> x \<and> x \<le> 0x7A)"
    by (rule twoLetterCode_iff)
  show ?thesis
    unfolding c [symmetric]
    by (simp add: detectLanguage_def detectLanguage_try_def proxy_detectLanguage_def Let_def)
qed

theorem detectLanguage_coercion_witness:
  "snd (detectLanguage (ex_platform (js '' FR '')) (js ''<p>Bonjour</p>'')) = Inr (js ''fr'') \<and>
   snd (proxy_detectLanguage (ex_platform (js '' FR '')) (js ''<p>Bonjour</p>'')) = Inr (js ''fr'') \<and>
   snd (detectLanguage (ex_platform (js ''French'')) (js ''<p>Bonjour</p>'')) = Inr (js ''en'') \<and>
   snd (proxy_detectLanguage (ex_platform (js ''French'')) (js ''<p>Bonjour</p>'')) = Inr (js ''en'') \<and>
   snd (detectLanguage (ex_platform (js ''12'')) (js ''<p>Bonjour</p>'')) = Inr (js ''en'') \<and>
   snd (proxy_detectLanguage (ex_platform (js ''12'')) (js ''<p>Bonjour</p>'')) = Inr (js ''en'') \<and>
   snd (detectLanguage (ex_platform (js ''k{'')) (js ''<p>Bonjour</p>'')) = Inr (js ''en'') \<and>
   snd (proxy_detectLanguage (ex_platform (js ''`o'')) (js ''<p>Bonjour</p>'')) = Inr (js ''en'')"
proof -
  let ?h = "js ''<p>Bonjour</p>''"
  have s: "\<And>r. extractTextSample (ex_platform r) ?h 1000 = Inr (js ''Bonjour'')"
    "take 1000 (trim (removeTags ?h)) = js ''Bonjour''" "js ''Bonjour'' \<noteq> []"
    "\<And>r. generateContent (ex_platform r) (detectRequest (js ''Bonjour'')) = Inr r"
    by (simp_all add: js_def extractTextSample_def eval_trim ex_platform_def)
  have t: "\<And>r. toLowerCase (ex_platform r) (trim r) = ascii_lower (trim r)"
    by (simp add: ex_platform_def)
  note d = detectLanguage_coercion [of "ex_platform r" ?h "js ''Bonjour''" r for r,
      unfolded s t, simplified]
  have 1: "snd (detectLanguage (ex_platform (js '' FR '')) ?h) = Inr (js ''fr'')"
    "snd (proxy_detectLanguage (ex_platform (js '' FR '')) ?h) = Inr (js ''fr'')"
    using d [of "js '' FR ''"] by (simp_all add: js_def eval_trim ascii_lower_def)
  have 2: "snd (detectLanguage (ex_platform (js ''French'')) ?h) = Inr (js ''en'')"
    "snd (proxy_detectLanguage (ex_platform (js ''French'')) ?h) = Inr (js ''en'')"
    using d [of "js ''French''"] by (simp_all add: js_def eval_trim ascii_lower_def)
  have 3: "snd (detectLanguage (ex_platform (js ''12'')) ?h) = Inr (js ''en'')"
    "snd (proxy_detectLanguage (ex_platform (js ''12'')) ?h) = Inr (js ''en'')"
    using d [of "js ''12''"] by (simp_all add: js_def eval_trim ascii_lower_def)
  have 4: "snd (detectLanguage (ex_platform (js ''k{'')) ?h) = Inr (js ''en'')"
    using d [of "js ''k{''"] by (simp_all add: js_def eval_trim ascii_lower_def)
  have 5: "snd (proxy_detectLanguage (ex_platform (js ''`o'')) ?h) = Inr (js ''en'')"
    using d [of "js ''`o''"] by (simp_all add: js_def eval_trim ascii_lower_def)
  from 1 2 3 4 5 show ?thesis by (intro conjI)
qed

section \<open>The orchestrator\<close>

lemma process_nonempty: "process sv model jobStart jobEnd finalUrl content \<noteq> []"
  by (simp add: process_def)

lemma last_failed: "last (failed e) \<noteq> Dispatch (JOB_SUCCESS r)"
  by (simp add: failed_def)

lemma finish_cases:
  "(\<exists>e. finish jobStart jobEnd finalUrl content ft a = failed e) \<or>
   (\<exists>r. finish jobStart jobEnd finalUrl content ft a = [Dispatch (JOB_SUCCESS r)] \<and>
        fullTranslation r = ft \<and> originalContent r = content \<and> originalUrl r = finalUrl)"
  by (auto simp: finish_def split: sum.splits)

lemma process_success:
  assumes "last (process sv model jobStart jobEnd finalUrl content) = Dispatch (JOB_SUCCESS r)"
  shows "\<exists>language. svc_detectLanguage sv content = Inr language \<and>
           dispatched (process sv model jobStart jobEnd finalUrl content) =
             [JOB_PROGRESS DETECTING_LANGUAGE, JOB_PROGRESS ANALYZING] @
             (if language = js ''ko'' then [] else [JOB_PROGRESS TRANSLATING]) @ [JOB_SUCCESS r] \<and>
           originalContent r = content \<and>
           (language = js ''ko'' \<longrightarrow> fullTranslation r = content) \<and>
           (language \<noteq> js ''ko'' \<longrightarrow>
              svc_performTranslation sv content model = Inr (fullTranslation r))"
proof (cases "svc_detectLanguage sv content")
  case (Inl e)
  with assms show ?thesis by (simp add: process_def failed_def)
next
  case (Inr language)
  note lang = Inr
  show ?thesis
  proof (cases "svc_performAnalysis sv content model")
    case (Inl e)
    with assms lang show ?thesis by (simp add: process_def failed_def)
  next
    case (Inr raw)
    note raw = Inr
    show ?thesis
    proof (cases "language = js ''ko''")
      case True
      with assms lang raw
      have l: "last (finish jobStart jobEnd finalUrl content content raw) = Dispatch (JOB_SUCCESS r)"
        by (simp add: process_def finish_def failed_def split: sum.splits)
      from finish_cases [of jobStart jobEnd finalUrl content content raw] l
      obtain r' where f: "finish jobStart jobEnd finalUrl content content raw = [Dispatch (JOB_SUCCESS r')]"
        and r': "fullTranslation r' = content" "originalContent r' = content"
        using last_failed by metis
      from f l have "r' = r" by simp
      with f r' lang raw True show ?thesis by (simp add: process_def)
    next
      case False
      show ?thesis
      proof (cases "promise_all (translationRejectsFirst sv)
                      (svc_translateAnalysis sv raw model) (svc_performTranslation sv content model)")
        case (Inl e)
        with assms lang raw False show ?thesis by (simp add: process_def failed_def)
      next
        case (Inr pair)
        obtain ta tc where pair: "pair = (ta, tc)" by (cases pair)
        from Inr pair have tc: "svc_performTranslation sv content model = Inr tc"
          by (auto simp: promise_all_def split: sum.splits)
        from assms lang raw False Inr pair
        have l: "last (finish jobStart jobEnd finalUrl content tc ta) = Dispatch (JOB_SUCCESS r)"
          by (simp add: process_def finish_def failed_def split: sum.splits)
        from finish_cases [of jobStart jobEnd finalUrl content tc ta] l
        obtain r' where f: "finish jobStart jobEnd finalUrl content tc ta = [Dispatch (JOB_SUCCESS r')]"
          and r': "fullTranslation r' = tc" "originalContent r' = content"
          using last_failed by metis
        from f l have "r' = r" by simp
        with f r' lang raw False Inr pair tc show ?thesis by (simp add: process_def)
      qed
    qed
  qed
qed

lemma handleJobSubmit_success:
  assumes "jobResult (handleJobSubmit sv model jobStart jobEnd v mode) = Some r"
  shows "\<exists>content language.
           jobContent sv v mode = Inr content \<and> svc_detectLanguage sv content = Inr language \<and>
           dispatched (handleJobSubmit sv model jobStart jobEnd v mode) =
             [JOB_START v jobStart] @ (if mode = Url then [JOB_PROGRESS EXTRACTING] else []) @
             [JOB_PROGRESS DETECTING_LANGUAGE, JOB_PROGRESS ANALYZING] @
             (if language = js ''ko'' then [] else [JOB_PROGRESS TRANSLATING]) @ [JOB_SUCCESS r] \<and>
           originalContent r = content \<and>
           (language = js ''ko'' \<longrightarrow> fullTranslation r = content) \<and>
           (language \<noteq> js ''ko'' \<longrightarrow>
              svc_performTranslation sv content model = Inr (fullTranslation r))"
proof (cases mode)
  case Text
  with assms have "last (process sv model jobStart jobEnd [] (normalizeText v)) = Dispatch (JOB_SUCCESS r)"
    by (simp add: jobResult_def handleJobSubmit_def process_nonempty
        split: event.splits Action.splits)
  from process_success [OF this] Text show ?thesis
    by (auto simp: jobContent_def handleJobSubmit_def)
next
  case Url
  show ?thesis
  proof (cases "svc_fetchUrlContent sv v")
    case (Inl e)
    with assms Url show ?thesis
      by (simp add: jobResult_def handleJobSubmit_def failed_def)
  next
    case (Inr content)
    with assms Url have "last (process sv model jobStart jobEnd v content) = Dispatch (JOB_SUCCESS r)"
      by (simp add: jobResult_def handleJobSubmit_def process_nonempty
          split: event.splits Action.splits)
    from process_success [OF this] Url Inr show ?thesis
      by (auto simp: jobContent_def handleJobSubmit_def)
  qed
qed

lemma statuses_success:
  assumes "jobResult (handleJobSubmit sv model jobStart jobEnd v mode) = Some r"
  shows "\<exists>content language.
           jobContent sv v mode = Inr content \<and> svc_detectLanguage sv content = Inr language \<and>
           statuses s0 (handleJobSubmit sv model jobStart jobEnd v mode) =
             map Some ([QUEUED] @ (if mode = Url then [EXTRACTING] else []) @
               [DETECTING_LANGUAGE, ANALYZING] @
               (if language = js ''ko'' then [] else [TRANSLATING]) @ [COMPLETED])"
proof -
  from handleJobSubmit_success [OF assms] obtain content language where
    c: "jobContent sv v mode = Inr content" and l: "svc_detectLanguage sv content = Inr language"
    and d: "dispatched (handleJobSubmit sv model jobStart jobEnd v mode) =
             [JOB_START v jobStart] @ (if mode = Url then [JOB_PROGRESS EXTRACTING] else []) @
             [JOB_PROGRESS DETECTING_LANGUAGE, JOB_PROGRESS ANALYZING] @
             (if language = js ''ko'' then [] else [JOB_PROGRESS TRANSLATING]) @ [JOB_SUCCESS r]"
    by blast
  have "statuses s0 (handleJobSubmit sv model jobStart jobEnd v mode) =
             map Some ([QUEUED] @ (if mode = Url then [EXTRACTING] else []) @
               [DETECTING_LANGUAGE, ANALYZING] @
               (if language = js ''ko'' then [] else [TRANSLATING]) @ [COMPLETED])"
    unfolding statuses_def d by (simp add: initialState_def)
  with c l show ?thesis by blast
qed

text \<open>
  C1. When a job succeeds, the statuses it publishes (from any state the reducer was in) are
  strictly increasing in the order \<open>status_order\<close>, none is repeated, they are a subsequence of
  \<open>status_order\<close>, and \<open>TRANSLATING\<close> is among them exactly when the detected language is not
  \<^verbatim>\<open>ko\<close>.
\<close>

theorem status_sequence_monotone:
  assumes "jobResult (handleJobSubmit sv model jobStart jobEnd v mode) = Some r"
  shows "\<exists>content language.
           jobContent sv v mode = Inr content \<and> svc_detectLanguage sv content = Inr language \<and>
           sorted_wrt (<) (map rank (statuses s0 (handleJobSubmit sv model jobStart jobEnd v mode))) \<and>
           distinct (statuses s0 (handleJobSubmit sv model jobStart jobEnd v mode)) \<and>
           subseq (statuses s0 (handleJobSubmit sv model jobStart jobEnd v mode))
             (map Some status_order) \<and>
           (Some TRANSLATING \<in> set (statuses s0 (handleJobSubmit sv model jobStart jobEnd v mode))
              \<longleftrightarrow> language \<noteq> js ''ko'')"
proof -
  from statuses_success [OF assms, of s0] obtain content language where
    c: "jobContent sv v mode = Inr content" and l: "svc_detectLanguage sv content = Inr language"
    and s: "statuses s0 (handleJobSubmit sv model jobStart jobEnd v mode) =
             map Some ([QUEUED] @ (if mode = Url then [EXTRACTING] else []) @
               [DETECTING_LANGUAGE, ANALYZING] @
               (if language = js ''ko'' then [] else [TRANSLATING]) @ [COMPLETED])"
    by blast
  have "sorted_wrt (<) (map rank (statuses s0 (handleJobSubmit sv model jobStart jobEnd v mode)))"
    unfolding s by simp
  moreover have "distinct (statuses s0 (handleJobSubmit sv model jobStart jobEnd v mode))"
    unfolding s by simp
  moreover have "subseq (statuses s0 (handleJobSubmit sv model jobStart jobEnd v mode))
             (map Some status_order)"
    unfolding s by (simp add: status_order_def)
  moreover have "Some TRANSLATING \<in> set (statuses s0 (handleJobSubmit sv model jobStart jobEnd v mode))
              \<longleftrightarrow> language \<noteq> js ''ko''"
    unfolding s by auto
  ultimately show ?thesis using c l by blast
qed

theorem status_sequence_monotone_witness:
  "jobResult (handleJobSubmit (ex_services (js ''en'')) FlashLite 0 1500 (js ''Hello'') Url) \<noteq> None \<and>
   statuses initialState (handleJobSubmit (ex_services (js ''en'')) FlashLite 0 1500 (js ''Hello'') Url) =
     [Some QUEUED, Some EXTRACTING, Some DETECTING_LANGUAGE, Some ANALYZING, Some TRANSLATING,
      Some COMPLETED] \<and>
   jobResult (handleJobSubmit (ex_services (js ''ko'')) FlashLite 0 1500 (js ''Hello'') Text) \<noteq> None \<and>
   statuses initialState (handleJobSubmit (ex_services (js ''ko'')) FlashLite 0 1500 (js ''Hello'') Text) =
     [Some QUEUED, Some DETECTING_LANGUAGE, Some ANALYZING, Some COMPLETED] \<and>
   sorted_wrt (<) (map rank (statuses initialState
     (handleJobSubmit (ex_services (js ''en'')) FlashLite 0 1500 (js ''Hello'') Url)))"
proof -
  obtain r where r: "jobResult
      (handleJobSubmit (ex_services (js ''en'')) FlashLite 0 1500 (js ''Hello'') Url) = Some r"
    by (simp add: eval_handleJobSubmit eval_ex_services jobResult_def js_def)
  from status_sequence_monotone [OF r, of initialState]
  have "sorted_wrt (<) (map rank (statuses initialState
     (handleJobSubmit (ex_services (js ''en'')) FlashLite 0 1500 (js ''Hello'') Url)))"
    by blast
  then show ?thesis
    by (simp add: eval_handleJobSubmit eval_ex_services jobResult_def statuses_def initialState_def
        js_def)
qed

text \<open>
  C2. Claimed: the result's \<open>fullTranslation\<close> is the job's content exactly when the detected
  language is \<^verbatim>\<open>ko\<close>. With a detector that says \<^verbatim>\<open>en\<close> and a translation call that returns the
  content as it is, \<open>fullTranslation\<close> is the content and the language is not \<^verbatim>\<open>ko\<close>.
\<close>

theorem fullTranslation_content_counterexample:
  "svc_detectLanguage ex_echo_services (normalizeText hello_text) = Inr (js ''en'') \<and>
   js ''en'' \<noteq> js ''ko'' \<and>
   map_option originalContent
     (jobResult (handleJobSubmit ex_echo_services FlashLite 0 1500 hello_text Text)) =
     Some (normalizeText hello_text) \<and>
   map_option fullTranslation
     (jobResult (handleJobSubmit ex_echo_services FlashLite 0 1500 hello_text Text)) =
     Some (normalizeText hello_text)"
  by (simp add: eval_handleJobSubmit eval_ex_services ex_echo_services_def jobResult_def js_def
      hello_text_def)

text \<open>
  C2, amended. The result of a completed job has the job's content as \<open>fullTranslation\<close> when
  the detected language is \<^verbatim>\<open>ko\<close>, and what the content-translation call returned otherwise; so
  it is the content exactly when the language is \<^verbatim>\<open>ko\<close> or the translation call returned the
  content unchanged. For raw text the content is the normalized input.
\<close>

theorem fullTranslation_content:
  assumes "jobResult (handleJobSubmit sv model jobStart jobEnd v mode) = Some r"
  shows "\<exists>content language.
           jobContent sv v mode = Inr content \<and> svc_detectLanguage sv content = Inr language \<and>
           originalContent r = content \<and>
           (language = js ''ko'' \<longrightarrow> fullTranslation r = content) \<and>
           (language \<noteq> js ''ko'' \<longrightarrow>
              svc_performTranslation sv content model = Inr (fullTranslation r)) \<and>
           (fullTranslation r = content \<longleftrightarrow>
              language = js ''ko'' \<or> svc_performTranslation sv content model = Inr content) \<and>
           (mode = Text \<longrightarrow> content = normalizeText v)"
proof -
  from handleJobSubmit_success [OF assms] obtain content language where
    h: "jobContent sv v mode = Inr content" "svc_detectLanguage sv content = Inr language"
      "originalContent r = content" "language = js ''ko'' \<longrightarrow> fullTranslation r = content"
      "language \<noteq> js ''ko'' \<longrightarrow> svc_performTranslation sv content model = Inr (fullTranslation r)"
    by blast
  from h(1) have m: "mode = Text \<longrightarrow> content = normalizeText v"
    by (auto simp: jobContent_def)
  from h(4,5) have i: "fullTranslation r = content \<longleftrightarrow>
      language = js ''ko'' \<or> svc_performTranslation sv content model = Inr content"
    by (cases "language = js ''ko''") auto
  from h m i show ?thesis by blast
qed

theorem fullTranslation_content_witness:
  "normalizeText hello_text = js ''<p>Hello world.</p><p>Second paragraph.</p>'' \<and>
   map_option fullTranslation
     (jobResult (handleJobSubmit (ex_services (js ''ko'')) FlashLite 0 1500 hello_text Text)) =
     Some (js ''<p>Hello world.</p><p>Second paragraph.</p>'') \<and>
   statuses initialState (handleJobSubmit (ex_services (js ''ko'')) FlashLite 0 1500 hello_text Text) =
     [Some QUEUED, Some DETECTING_LANGUAGE, Some ANALYZING, Some COMPLETED] \<and>
   map_option fullTranslation
     (jobResult (handleJobSubmit (ex_services (js ''en'')) FlashLite 0 1500 hello_text Text)) =
     Some (js ''<p>T</p>'')"
proof -
  obtain r where r: "jobResult
      (handleJobSubmit (ex_services (js ''ko'')) FlashLite 0 1500 hello_text Text) = Some r"
    by (simp add: eval_handleJobSubmit eval_ex_services jobResult_def js_def hello_text_def)
  from fullTranslation_content [OF r]
  have "fullTranslation r = normalizeText hello_text"
    by (auto simp: ex_services_def)
  with r have "map_option fullTranslation
     (jobResult (handleJobSubmit (ex_services (js ''ko'')) FlashLite 0 1500 hello_text Text)) =
     Some (normalizeText hello_text)" by simp
  moreover have "normalizeText hello_text = js ''<p>Hello world.</p><p>Second paragraph.</p>''"
    by (simp add: normalizeText_def wrap_paragraph_def js_def hello_text_def)
  ultimately show ?thesis
    by (simp add: eval_handleJobSubmit eval_ex_services jobResult_def statuses_def initialState_def
        js_def hello_text_def)
qed

text \<open>
  C3. Claimed: every submission, in either input mode, goes from \<open>QUEUED\<close> to \<open>EXTRACTING\<close>
  before any further step. A raw-text job never publishes \<open>EXTRACTING\<close>: the dispatch is in
  the \<^verbatim>\<open>if (mode === 'url')\<close> branch only.
\<close>

theorem submit_extracting_counterexample:
  "statuses initialState
     (handleJobSubmit (ex_services (js ''ko'')) FlashLite 0 1500 (js ''Hello'') Text) =
     [Some QUEUED, Some DETECTING_LANGUAGE, Some ANALYZING, Some COMPLETED] \<and>
   Dispatch (JOB_PROGRESS EXTRACTING) \<notin>
     set (handleJobSubmit (ex_services (js ''ko'')) FlashLite 0 1500 (js ''Hello'') Text)"
  by (simp add: eval_handleJobSubmit eval_ex_services statuses_def initialState_def js_def)

lemma process_no_extracting:
  "Dispatch (JOB_PROGRESS EXTRACTING) \<notin> set (process sv model jobStart jobEnd finalUrl content)"
  by (auto simp: process_def finish_def failed_def split: sum.splits)

text \<open>
  C3, amended. Every submission first dispatches \<open>JOB_START\<close>, which records the start
  timestamp and sets the status to \<open>QUEUED\<close>. A URL job then publishes \<open>EXTRACTING\<close> before
  its first service call (the fetch); a raw-text job never publishes \<open>EXTRACTING\<close> and goes
  from \<open>QUEUED\<close> to \<open>DETECTING_LANGUAGE\<close>.
\<close>

theorem submit_first_steps:
  "\<exists>rest. handleJobSubmit sv model jobStart jobEnd v mode = Dispatch (JOB_START v jobStart) # rest \<and>
     jobStartTime (jobReducer s0 (JOB_START v jobStart)) = Some jobStart \<and>
     jobStatus (jobReducer s0 (JOB_START v jobStart)) = Some QUEUED \<and>
     (mode = Url \<longrightarrow>
        (\<exists>rest'. rest = Dispatch (JOB_PROGRESS EXTRACTING) # Call (FetchUrlContent v) # rest')) \<and>
     (mode = Text \<longrightarrow>
        (\<exists>rest'. rest = Dispatch (JOB_PROGRESS DETECTING_LANGUAGE) #
                         Call (DetectLanguage (normalizeText v)) # rest') \<and>
        Dispatch (JOB_PROGRESS EXTRACTING) \<notin> set rest)"
proof (cases mode)
  case Url
  then show ?thesis by (simp add: handleJobSubmit_def initialState_def)
next
  case Text
  let ?rest = "process sv model jobStart jobEnd [] (normalizeText v)"
  have "handleJobSubmit sv model jobStart jobEnd v mode = Dispatch (JOB_START v jobStart) # ?rest"
    using Text by (simp add: handleJobSubmit_def)
  moreover have "\<exists>rest'. ?rest = Dispatch (JOB_PROGRESS DETECTING_LANGUAGE) #
                         Call (DetectLanguage (normalizeText v)) # rest'"
    by (simp add: process_def)
  moreover have "Dispatch (JOB_PROGRESS EXTRACTING) \<notin> set ?rest" by (rule process_no_extracting)
  ultimately show ?thesis using Text by (simp add: initialState_def)
qed

theorem submit_first_steps_witness:
  "take 3 (handleJobSubmit (ex_services (js ''en'')) FlashLite 0 1500 (js ''Hello'') Url) =
     [Dispatch (JOB_START (js ''Hello'') 0), Dispatch (JOB_PROGRESS EXTRACTING),
      Call (FetchUrlContent (js ''Hello''))] \<and>
   take 3 (handleJobSubmit (ex_services (js ''en'')) FlashLite 0 1500 (js ''Hello'') Text) =
     [Dispatch (JOB_START (js ''Hello'') 0), Dispatch (JOB_PROGRESS DETECTING_LANGUAGE),
      Call (DetectLanguage (js ''<p>Hello</p>''))] \<and>
   jobStartTime (jobReducer initialState (JOB_START (js ''Hello'') 0)) = Some 0"
  using submit_first_steps [of "ex_services (js ''en'')" FlashLite 0 1500 "js ''Hello''" Url initialState]
    submit_first_steps [of "ex_services (js ''en'')" FlashLite 0 1500 "js ''Hello''" Text initialState]
  by (simp add: eval_handleJobSubmit eval_ex_services statuses_def initialState_def js_def)

lemma detectLanguage_total: "\<exists>code. snd (detectLanguage p html) = Inr code"
  by (cases "detectLanguage_try p html") (auto simp: detectLanguage_def split: sum.splits)

lemma process_reaches_analysis:
  assumes "svc_detectLanguage sv content = Inr language"
  shows "Dispatch (JOB_PROGRESS ANALYZING) \<in> set (process sv model jobStart jobEnd finalUrl content)"
  using assms by (simp add: process_def)

lemma process_skips_translation:
  assumes "svc_detectLanguage sv content = Inr (js ''ko'')"
  shows "Dispatch (JOB_PROGRESS TRANSLATING) \<notin> set (process sv model jobStart jobEnd finalUrl content) \<and>
         (\<forall>c m. Call (PerformTranslation c m) \<notin> set (process sv model jobStart jobEnd finalUrl content)) \<and>
         (\<forall>a m. Call (TranslateAnalysis a m) \<notin> set (process sv model jobStart jobEnd finalUrl content))"
  using assms by (auto simp: process_def finish_def failed_def split: sum.splits)

text \<open>
  C9. In both variants, when the text sample taken from the content is empty, the detector
  returns \<^verbatim>\<open>ko\<close> and has issued no model call. A job whose detector answers \<^verbatim>\<open>ko\<close> never
  publishes \<open>TRANSLATING\<close> and calls neither translation service.
\<close>

theorem detectLanguage_empty_sample:
  "(extractTextSample p html 1000 = Inr [] \<longrightarrow> detectLanguage p html = ([], Inr (js ''ko''))) \<and>
   (take 1000 (trim (removeTags html)) = [] \<longrightarrow>
      proxy_detectLanguage p html = ([], Inr (js ''ko''))) \<and>
   (jobContent sv v mode = Inr html \<and> svc_detectLanguage sv html = Inr (js ''ko'') \<longrightarrow>
      Dispatch (JOB_PROGRESS TRANSLATING) \<notin> set (handleJobSubmit sv model jobStart jobEnd v mode) \<and>
      (\<forall>c m. Call (PerformTranslation c m) \<notin> set (handleJobSubmit sv model jobStart jobEnd v mode)) \<and>
      (\<forall>a m. Call (TranslateAnalysis a m) \<notin> set (handleJobSubmit sv model jobStart jobEnd v mode)))"
proof (intro conjI impI)
  assume "extractTextSample p html 1000 = Inr []"
  then show "detectLanguage p html = ([], Inr (js ''ko''))"
    by (simp add: detectLanguage_def detectLanguage_try_def)
next
  assume "take 1000 (trim (removeTags html)) = []"
  then show "proxy_detectLanguage p html = ([], Inr (js ''ko''))"
    by (simp add: proxy_detectLanguage_def)
next
  assume a: "jobContent sv v mode = Inr html \<and> svc_detectLanguage sv html = Inr (js ''ko'')"
  then have d: "svc_detectLanguage sv html = Inr (js ''ko'')" by simp
  have e: "handleJobSubmit sv model jobStart jobEnd v mode =
      Dispatch (JOB_START v jobStart) #
      (if mode = Url then [Dispatch (JOB_PROGRESS EXTRACTING), Call (FetchUrlContent v)] else []) @
      process sv model jobStart jobEnd (if mode = Url then v else []) html"
    using a by (cases mode) (simp_all add: handleJobSubmit_def jobContent_def)
  from process_skips_translation [OF d, of model jobStart jobEnd "if mode = Url then v else []"]
  show "Dispatch (JOB_PROGRESS TRANSLATING) \<notin> set (handleJobSubmit sv model jobStart jobEnd v mode)"
    and "\<forall>c m. Call (PerformTranslation c m) \<notin> set (handleJobSubmit sv model jobStart jobEnd v mode)"
    and "\<forall>a m. Call (TranslateAnalysis a m) \<notin> set (handleJobSubmit sv model jobStart jobEnd v mode)"
    unfolding e by auto
qed

theorem detectLanguage_empty_sample_witness:
  "detectLanguage (ex_platform (js ''fr'')) (js ''<p> </p>'') = ([], Inr (js ''ko'')) \<and>
   proxy_detectLanguage (ex_platform (js ''fr'')) (js ''<p> </p>'') = ([], Inr (js ''ko'')) \<and>
   statuses initialState
     (handleJobSubmit
        ((ex_services (js ''en''))
           \<lparr>svc_detectLanguage := (\<lambda>content. snd (detectLanguage (ex_platform (js ''fr'')) content))\<rparr>)
        FlashLite 0 1500 (js '' '') Text) =
     [Some QUEUED, Some DETECTING_LANGUAGE, Some ANALYZING, Some COMPLETED]"
proof -
  have s: "extractTextSample (ex_platform (js ''fr'')) (js ''<p> </p>'') 1000 = Inr []"
    "take 1000 (trim (removeTags (js ''<p> </p>''))) = []"
    by (simp_all add: js_def eval_detectLanguage eval_trim ex_platform_def)
  from detectLanguage_empty_sample [of "ex_platform (js ''fr'')" "js ''<p> </p>''"] s
  have 1: "detectLanguage (ex_platform (js ''fr'')) (js ''<p> </p>'') = ([], Inr (js ''ko''))"
    and 2: "proxy_detectLanguage (ex_platform (js ''fr'')) (js ''<p> </p>'') = ([], Inr (js ''ko''))"
    by blast+
  have 3: "detectLanguage (ex_platform (js ''fr'')) (js ''<p> </p>'') = ([], Inr (js ''ko'')) \<Longrightarrow>
     statuses initialState
     (handleJobSubmit
        ((ex_services (js ''en''))
           \<lparr>svc_detectLanguage := (\<lambda>content. snd (detectLanguage (ex_platform (js ''fr'')) content))\<rparr>)
        FlashLite 0 1500 (js '' '') Text) =
     [Some QUEUED, Some DETECTING_LANGUAGE, Some ANALYZING, Some COMPLETED]"
    by (simp add: eval_handleJobSubmit eval_ex_services statuses_def initialState_def js_def)
  from 1 2 3 [OF 1] show ?thesis by (intro conjI)
qed

text \<open>
  C10. The direct-call \<open>detectLanguage\<close> always resolves: whatever the DOM or the model call
  throws, the result is the code \<^verbatim>\<open>en\<close>. A job whose detector it is therefore reaches the
  analysis step whenever its content could be obtained.
\<close>

theorem detectLanguage_never_rejects:
  "(\<exists>code. snd (detectLanguage p html) = Inr code) \<and>
   (\<forall>e. div_text p html = Inl e \<longrightarrow> detectLanguage p html = ([], Inr (js ''en''))) \<and>
   (\<forall>sample e. extractTextSample p html 1000 = Inr sample \<and> sample \<noteq> [] \<and>
       generateContent p (detectRequest sample) = Inl e
       \<longrightarrow> snd (detectLanguage p html) = Inr (js ''en'')) \<and>
   (svc_detectLanguage sv = (\<lambda>content. snd (detectLanguage p content)) \<and>
    jobContent sv v mode = Inr html \<longrightarrow>
      Dispatch (JOB_PROGRESS ANALYZING) \<in> set (handleJobSubmit sv model jobStart jobEnd v mode))"
proof (intro conjI allI impI)
  show "\<exists>code. snd (detectLanguage p html) = Inr code" by (rule detectLanguage_total)
next
  fix e assume "div_text p html = Inl e"
  then show "detectLanguage p html = ([], Inr (js ''en''))"
    by (simp add: detectLanguage_def detectLanguage_try_def extractTextSample_def)
next
  fix sample e
  assume "extractTextSample p html 1000 = Inr sample \<and> sample \<noteq> [] \<and>
       generateContent p (detectRequest sample) = Inl e"
  then show "snd (detectLanguage p html) = Inr (js ''en'')"
    by (simp add: detectLanguage_def detectLanguage_try_def Let_def)
next
  assume a: "svc_detectLanguage sv = (\<lambda>content. snd (detectLanguage p content)) \<and>
    jobContent sv v mode = Inr html"
  from detectLanguage_total [of p html] obtain code where "snd (detectLanguage p html) = Inr code" ..
  with a have d: "svc_detectLanguage sv html = Inr code" by simp
  show "Dispatch (JOB_PROGRESS ANALYZING) \<in> set (handleJobSubmit sv model jobStart jobEnd v mode)"
  proof (cases mode)
    case Url
    with a have "svc_fetchUrlContent sv v = Inr html" by (simp add: jobContent_def)
    with Url process_reaches_analysis [OF d] show ?thesis by (simp add: handleJobSubmit_def)
  next
    case Text
    with a have "normalizeText v = html" by (simp add: jobContent_def)
    with Text process_reaches_analysis [OF d] show ?thesis by (simp add: handleJobSubmit_def)
  qed
qed

theorem detectLanguage_never_rejects_witness:
  "detectLanguage ex_broken_platform (js ''<p>Hi</p>'') = ([], Inr (js ''en'')) \<and>
   snd (detectLanguage ex_offline_platform (js ''<p>Hi</p>'')) = Inr (js ''en'') \<and>
   statuses initialState
     (handleJobSubmit
        ((ex_services (js ''ko''))
           \<lparr>svc_detectLanguage := (\<lambda>content. snd (detectLanguage ex_offline_platform content))\<rparr>)
        FlashLite 0 1500 (js ''Hi'') Text) =
     [Some QUEUED, Some DETECTING_LANGUAGE, Some ANALYZING, Some TRANSLATING, Some COMPLETED]"
proof -
  have "div_text ex_broken_platform (js ''<p>Hi</p>'') = Inl (ErrorObj (js ''document is not defined''))"
    by (simp add: ex_broken_platform_def)
  with detectLanguage_never_rejects [of ex_broken_platform "js ''<p>Hi</p>''"]
  have 1: "detectLanguage ex_broken_platform (js ''<p>Hi</p>'') = ([], Inr (js ''en''))"
    by blast
  have 2: "snd (detectLanguage ex_offline_platform (js ''<p>Hi</p>'')) = Inr (js ''en'')"
    by (simp add: js_def eval_detectLanguage eval_trim ex_offline_platform_def)
  have 3: "snd (detectLanguage ex_offline_platform (js ''<p>Hi</p>'')) = Inr (js ''en'') \<Longrightarrow>
     statuses initialState
     (handleJobSubmit
        ((ex_services (js ''ko''))
           \<lparr>svc_detectLanguage := (\<lambda>content. snd (detectLanguage ex_offline_platform content))\<rparr>)
        FlashLite 0 1500 (js ''Hi'') Text) =
     [Some QUEUED, Some DETECTING_LANGUAGE, Some ANALYZING, Some TRANSLATING, Some COMPLETED]"
    by (simp add: eval_handleJobSubmit eval_ex_services statuses_def initialState_def js_def)
  from 1 2 3 [OF 2] show ?thesis by (intro conjI)
qed

section \<open>The analysis client\<close>

lemma missingRequired_iff:
  "missingRequired v \<longleftrightarrow> (\<exists>k\<in>set requiredFields. \<not> truthy (field v k))"
  by (simp add: missingRequired_def requiredFields_def)

lemma performAnalysis_try_parsed:
  assumes "generateContent p (analysisRequest c m) = Inr text"
    and "JSON_parse p (stripMarkdown text) = Inr v"
  shows "performAnalysis_try p c m =
     (if v = JNull then Inl (typeErrorNull (js ''title''))
      else if missingRequired v then Inl (ErrorObj msg_missing_fields) else Inr v)"
  using assms by (simp add: performAnalysis_try_def)

lemma performAnalysis_Inl: "performAnalysis_try p c m = Inl e \<Longrightarrow> isl (performAnalysis p c m)"
  by (cases e) (simp_all add: performAnalysis_def)

lemma performAnalysis_Inr: "performAnalysis_try p c m = Inr v \<Longrightarrow> performAnalysis p c m = Inr v"
  by (simp add: performAnalysis_def)

lemmas eval_performAnalysis =
  performAnalysis_def performAnalysis_try_def analysisRequest_def getModelConfig_def
  missingRequired_def

text \<open>
  C4. Claimed: both variants fail when the stripped reply is not JSON, fail when one of the
  five required fields is absent, and return the parsed value otherwise. The direct-call
  variant tests the fields for truthiness: a reply with all five fields and an empty title
  is rejected. (The proxied variant has no field test at all: it returns a reply that has
  only a title.)
\<close>

theorem performAnalysis_outcomes_counterexample:
  "JSON_parse (ex_platform ex_untitled_text) (stripMarkdown ex_untitled_text) = Inr ex_untitled \<and>
   None \<notin> set (map (field ex_untitled) requiredFields) \<and>
   performAnalysis (ex_platform ex_untitled_text) (js ''<p>Hi</p>'') Flash =
     Inl (ErrorObj (msg_analysis_prefix @ msg_missing_fields)) \<and>
   JSON_parse (ex_platform ex_retitled_text) (stripMarkdown ex_retitled_text) = Inr ex_retitled \<and>
   field ex_retitled (js ''keywords'') = None \<and>
   proxy_performAnalysis (ex_platform ex_retitled_text) (js ''<p>Hi</p>'') Flash = Inr ex_retitled"
  by (simp add: js_def eval_stripMarkdown eval_trim eval_performAnalysis proxy_performAnalysis_def
      eval_ex_platform msg_missing_fields_def requiredFields_def)

text \<open>
  C4, amended. Once the model has answered: when the stripped reply is not parseable, both
  variants fail; when a required field of the parsed value is absent or falsy (an empty
  string, \<^verbatim>\<open>null\<close>, \<^verbatim>\<open>false\<close>, 0), the direct-call variant fails; when all five are present and
  truthy, both variants return the parsed value as it is. The reply may be fenced: the
  parser gets the stripped text.
\<close>

theorem performAnalysis_outcomes:
  assumes "generateContent p (analysisRequest c m) = Inr text"
  shows
   "(\<forall>e. JSON_parse p (stripMarkdown text) = Inl e \<longrightarrow>
        isl (performAnalysis p c m) \<and> proxy_performAnalysis p c m = Inl e) \<and>
    (\<forall>v. JSON_parse p (stripMarkdown text) = Inr v \<and> (\<exists>k\<in>set requiredFields. \<not> truthy (field v k)) \<longrightarrow>
        isl (performAnalysis p c m)) \<and>
    (\<forall>v. JSON_parse p (stripMarkdown text) = Inr v \<and> (\<forall>k\<in>set requiredFields. truthy (field v k)) \<longrightarrow>
        performAnalysis p c m = Inr v \<and> proxy_performAnalysis p c m = Inr v)"
proof (intro conjI allI impI)
  fix e assume "JSON_parse p (stripMarkdown text) = Inl e"
  with assms have "performAnalysis_try p c m = Inl (ErrorObj msg_invalid_json_format)"
    by (simp add: performAnalysis_try_def)
  then show "isl (performAnalysis p c m)" by (rule performAnalysis_Inl)
next
  fix e assume "JSON_parse p (stripMarkdown text) = Inl e"
  with assms show "proxy_performAnalysis p c m = Inl e" by (simp add: proxy_performAnalysis_def)
next
  fix v assume a: "JSON_parse p (stripMarkdown text) = Inr v \<and> (\<exists>k\<in>set requiredFields. \<not> truthy (field v k))"
  then have "missingRequired v" by (simp only: missingRequired_iff)
  with a assms have "\<exists>e. performAnalysis_try p c m = Inl e"
    by (simp add: performAnalysis_try_parsed)
  then show "isl (performAnalysis p c m)" by (auto intro: performAnalysis_Inl)
next
  fix v assume a: "JSON_parse p (stripMarkdown text) = Inr v \<and> (\<forall>k\<in>set requiredFields. truthy (field v k))"
  then have m: "\<not> missingRequired v" by (simp only: missingRequired_iff) simp
  from a have "truthy (field v (js ''title''))" by (simp add: requiredFields_def)
  then have "v \<noteq> JNull" by auto
  with a m assms have "performAnalysis_try p c m = Inr v" by (simp add: performAnalysis_try_parsed)
  then show "performAnalysis p c m = Inr v" by (rule performAnalysis_Inr)
next
  fix v assume a: "JSON_parse p (stripMarkdown text) = Inr v \<and> (\<forall>k\<in>set requiredFields. truthy (field v k))"
  with assms show "proxy_performAnalysis p c m = Inr v" by (simp add: proxy_performAnalysis_def)
qed

theorem performAnalysis_outcomes_witness:
  "stripMarkdown (fenced_json ex_analysis_text) = ex_analysis_text \<and>
   performAnalysis (ex_platform (fenced_json ex_analysis_text)) (js ''<p>Hi</p>'') Flash =
     Inr ex_analysis \<and>
   proxy_performAnalysis (ex_platform (fenced_json ex_analysis_text)) (js ''<p>Hi</p>'') Flash =
     Inr ex_analysis \<and>
   isl (performAnalysis (ex_platform (js ''sorry'')) (js ''<p>Hi</p>'') Flash) \<and>
   isl (proxy_performAnalysis (ex_platform (js ''sorry'')) (js ''<p>Hi</p>'') Flash) \<and>
   isl (performAnalysis (ex_platform ex_retitled_text) (js ''<p>Hi</p>'') Flash)"
proof -
  let ?c = "js ''<p>Hi</p>''"
  have s: "stripMarkdown (fenced_json ex_analysis_text) = ex_analysis_text"
    by (simp add: js_def eval_stripMarkdown eval_trim eval_ex_platform fenced_json_def)
  have g1: "generateContent (ex_platform (fenced_json ex_analysis_text)) (analysisRequest ?c Flash) =
      Inr (fenced_json ex_analysis_text)"
    by (simp add: ex_platform_def)
  have p1: "JSON_parse (ex_platform (fenced_json ex_analysis_text))
      (stripMarkdown (fenced_json ex_analysis_text)) = Inr ex_analysis"
    unfolding s by (simp add: ex_platform_def ex_parse_def)
  have f1: "\<forall>k\<in>set requiredFields. truthy (field ex_analysis k)"
    by (simp add: requiredFields_def ex_analysis_def js_def)
  from performAnalysis_outcomes [OF g1] p1 f1
  have 1: "performAnalysis (ex_platform (fenced_json ex_analysis_text)) ?c Flash = Inr ex_analysis \<and>
    proxy_performAnalysis (ex_platform (fenced_json ex_analysis_text)) ?c Flash = Inr ex_analysis"
    by blast
  have g2: "generateContent (ex_platform (js ''sorry'')) (analysisRequest ?c Flash) = Inr (js ''sorry'')"
    by (simp add: ex_platform_def)
  have p2: "JSON_parse (ex_platform (js ''sorry'')) (stripMarkdown (js ''sorry'')) =
      Inl (ErrorObj (js ''Unexpected token''))"
    by (simp add: js_def eval_stripMarkdown eval_trim eval_ex_platform fenced_json_def)
  from performAnalysis_outcomes [OF g2] p2
  have 2: "isl (performAnalysis (ex_platform (js ''sorry'')) ?c Flash) \<and>
    isl (proxy_performAnalysis (ex_platform (js ''sorry'')) ?c Flash)"
    by auto
  have g3: "generateContent (ex_platform ex_retitled_text) (analysisRequest ?c Flash) =
      Inr ex_retitled_text"
    by (simp add: ex_platform_def)
  have p3: "JSON_parse (ex_platform ex_retitled_text) (stripMarkdown ex_retitled_text) =
      Inr ex_retitled"
    by (simp add: js_def eval_stripMarkdown eval_trim eval_ex_platform fenced_json_def)
  have f3: "\<exists>k\<in>set requiredFields. \<not> truthy (field ex_retitled k)"
    by (simp add: requiredFields_def ex_retitled_def js_def)
  from performAnalysis_outcomes [OF g3] p3 f3
  have 3: "isl (performAnalysis (ex_platform ex_retitled_text) ?c Flash)"
    by blast
  from s 1 2 3 show ?thesis by simp
qed

section \<open>The translation of an analysis\<close>

lemma translateAnalysis_try_parsed:
  assumes "generateContent p (translateAnalysisRequest (JObj an) m) = Inr text"
    and "JSON_parse p (stripMarkdown text) = Inr tr"
  shows "translateAnalysis_try p (JObj an) m = Inr (spread (JObj an) tr)"
  using assms by (simp add: translateAnalysis_try_def)

lemma title_not_translated: "js ''title'' \<notin> translatedFields"
  by (simp add: translatedFields_def js_def)

lemmas eval_translateAnalysis =
  translateAnalysis_def translateAnalysis_try_def translateAnalysisRequest_def getModelConfig_def
  spread_def AList.merge_def

text \<open>
  C6. Claimed: for every analysis the result has the input's title and the input's fields.
  The reply is merged over the analysis unchecked: a reply that has a \<^verbatim>\<open>title\<close> member
  replaces the title.
\<close>

theorem translateAnalysis_frame_counterexample:
  "translateAnalysis (ex_platform ex_retitled_text) ex_analysis Flash =
     Inr (JObj [(js ''title'', JStr (js ''X'')), (js ''oneLineSummary'', JStr (js ''S'')),
           (js ''keyPoints'', JArr [JStr (js ''P'')]), (js ''keyPlayers'', JArr [JStr (js ''K'')]),
           (js ''keywords'', JArr [JStr (js ''W'')])]) \<and>
   proxy_translateAnalysis (ex_platform ex_retitled_text) ex_analysis Flash =
     translateAnalysis (ex_platform ex_retitled_text) ex_analysis Flash \<and>
   field ex_analysis (js ''title'') = Some (JStr (js ''T''))"
  by (simp add: js_def eval_stripMarkdown eval_trim eval_translateAnalysis
      proxy_translateAnalysis_def eval_ex_platform)

text \<open>
  C6, amended. When the reply parses to an object whose members are among the four
  translated fields (what the response schema asks for), both variants return the analysis
  with the members of the reply put over it: the title is the input's, every member of the
  reply replaces the input's, every other field is the input's, and the set of fields is
  the input's as soon as the input has the four fields.
\<close>

theorem translateAnalysis_frame:
  assumes "generateContent p (translateAnalysisRequest (JObj an) m) = Inr text"
    and "JSON_parse p (stripMarkdown text) = Inr (JObj tr)"
    and "fst ` set tr \<subseteq> translatedFields"
  shows "\<exists>r. translateAnalysis p (JObj an) m = Inr (JObj r) \<and>
           proxy_translateAnalysis p (JObj an) m = Inr (JObj r) \<and>
           map_of r (js ''title'') = map_of an (js ''title'') \<and>
           (\<forall>k. map_of r k = (case map_of tr k of Some t \<Rightarrow> Some t | None \<Rightarrow> map_of an k)) \<and>
           fst ` set r = fst ` set an \<union> fst ` set tr \<and>
           (translatedFields \<subseteq> fst ` set an \<longrightarrow> fst ` set r = fst ` set an)"
proof -
  let ?r = "AList.merge an tr"
  have t: "translateAnalysis_try p (JObj an) m = Inr (JObj ?r)"
    using assms(1,2) by (simp add: translateAnalysis_try_parsed spread_def)
  then have 1: "translateAnalysis p (JObj an) m = Inr (JObj ?r)"
    by (simp add: translateAnalysis_def)
  from t have 2: "proxy_translateAnalysis p (JObj an) m = Inr (JObj ?r)"
    by (simp add: proxy_translateAnalysis_def)
  have m: "map_of ?r = map_of an ++ map_of tr" by (rule merge_conv')
  have "js ''title'' \<notin> fst ` set tr" using assms(3) title_not_translated by blast
  then have "map_of tr (js ''title'') = None" by (simp add: map_of_eq_None_iff)
  then have 3: "map_of ?r (js ''title'') = map_of an (js ''title'')"
    by (simp add: m map_add_def)
  have 4: "\<forall>k. map_of ?r k = (case map_of tr k of Some t \<Rightarrow> Some t | None \<Rightarrow> map_of an k)"
    by (simp add: m map_add_def split: option.splits)
  have 5: "fst ` set ?r = fst ` set an \<union> fst ` set tr" by (rule dom_merge)
  have 6: "translatedFields \<subseteq> fst ` set an \<longrightarrow> fst ` set ?r = fst ` set an"
    using assms(3) 5 by auto
  from 1 2 3 4 5 6 show ?thesis by blast
qed

theorem translateAnalysis_frame_witness:
  "translateAnalysis (ex_platform ex_translated_text) ex_analysis Flash =
     Inr (JObj [(js ''title'', JStr (js ''T'')), (js ''oneLineSummary'', JStr (js ''s'')),
           (js ''keyPoints'', JArr [JStr (js ''p'')]), (js ''keyPlayers'', JArr [JStr (js ''k'')]),
           (js ''keywords'', JArr [JStr (js ''w'')])]) \<and>
   proxy_translateAnalysis (ex_platform ex_translated_text) ex_analysis Flash =
     translateAnalysis (ex_platform ex_translated_text) ex_analysis Flash"
proof -
  let ?an = "[(js ''title'', JStr (js ''T'')), (js ''oneLineSummary'', JStr (js ''S'')),
           (js ''keyPoints'', JArr [JStr (js ''P'')]), (js ''keyPlayers'', JArr [JStr (js ''K'')]),
           (js ''keywords'', JArr [JStr (js ''W'')])]"
  let ?tr = "[(js ''oneLineSummary'', JStr (js ''s'')), (js ''keyPoints'', JArr [JStr (js ''p'')]),
           (js ''keyPlayers'', JArr [JStr (js ''k'')]), (js ''keywords'', JArr [JStr (js ''w'')])]"
  have g: "generateContent (ex_platform ex_translated_text) (translateAnalysisRequest (JObj ?an) Flash) =
      Inr ex_translated_text"
    by (simp add: ex_platform_def)
  have p: "JSON_parse (ex_platform ex_translated_text) (stripMarkdown ex_translated_text) = Inr (JObj ?tr)"
    by (simp add: js_def eval_stripMarkdown eval_trim eval_ex_platform)
  have k: "fst ` set ?tr \<subseteq> translatedFields" by (simp add: translatedFields_def)
  from translateAnalysis_frame [OF g p k]
  have 1: "proxy_translateAnalysis (ex_platform ex_translated_text) (JObj ?an) Flash =
     translateAnalysis (ex_platform ex_translated_text) (JObj ?an) Flash"
    by (elim exE conjE) (simp only:)
  have 2: "translateAnalysis (ex_platform ex_translated_text) (JObj ?an) Flash =
     Inr (JObj [(js ''title'', JStr (js ''T'')), (js ''oneLineSummary'', JStr (js ''s'')),
           (js ''keyPoints'', JArr [JStr (js ''p'')]), (js ''keyPlayers'', JArr [JStr (js ''k'')]),
           (js ''keywords'', JArr [JStr (js ''w'')])])"
    by (simp add: js_def eval_stripMarkdown eval_trim eval_translateAnalysis eval_ex_platform)
  from 1 2 show ?thesis unfolding ex_analysis_def by (intro conjI)
qed

section \<open>The normalization of raw text\<close>

lemma split_on_nonempty: "split_on sep s \<noteq> []"
  by (induction s) (auto split: list.splits)

lemma split_on_no_sep: "sep \<notin> set s \<Longrightarrow> split_on sep s = [s]"
  by (induction s) auto

lemma split_on_append: "sep \<notin> set a \<Longrightarrow> split_on sep (a @ sep # rest) = a # split_on sep rest"
  by (induction a) auto

lemma join_Cons_hd: "join sep ((c # p) # ps) = c # join sep (p # ps)"
  by (cases ps) simp_all

lemma join_Cons2: "ps \<noteq> [] \<Longrightarrow> join sep (p # ps) = p @ sep @ join sep ps"
  by (cases ps) simp_all

lemma join_split_on: "join [sep] (split_on sep s) = s"
proof (induction s)
  case Nil then show ?case by simp
next
  case (Cons c cs)
  show ?case
  proof (cases "c = sep")
    case True
    with Cons show ?thesis by (simp add: join_Cons2 split_on_nonempty)
  next
    case False
    obtain p ps where p: "split_on sep cs = p # ps"
      using split_on_nonempty [of sep cs] by (cases "split_on sep cs") auto
    with Cons False show ?thesis by (simp add: join_Cons_hd)
  qed
qed

lemma split_on_lines_no_sep: "l \<in> set (split_on sep s) \<Longrightarrow> sep \<notin> set l"
proof (induction s arbitrary: l)
  case Nil then show ?case by simp
next
  case (Cons c cs)
  obtain p ps where p: "split_on sep cs = p # ps"
    using split_on_nonempty [of sep cs] by (cases "split_on sep cs") auto
  with Cons show ?case by (auto split: if_splits)
qed

lemma hd_split_on: "hd (split_on sep s) = [] \<longleftrightarrow> s = [] \<or> hd s = sep"
  by (cases s) (auto split: list.splits)

lemma last_split_on: "last (split_on sep s) = [] \<longleftrightarrow> s = [] \<or> last s = sep"
proof (induction s)
  case Nil then show ?case by simp
next
  case (Cons c cs)
  obtain p ps where p: "split_on sep cs = p # ps"
    using split_on_nonempty [of sep cs] by (cases "split_on sep cs") auto
  show ?case
  proof (cases "c = sep")
    case True
    with Cons p show ?thesis by (cases "cs = []") auto
  next
    case False
    show ?thesis
    proof (cases "cs = []")
      case True
      with False show ?thesis by simp
    next
      case ne: False
      have "split_on sep cs \<noteq> [[]]"
      proof
        assume "split_on sep cs = [[]]"
        then have "join [sep] (split_on sep cs) = []" by simp
        with ne show False by (simp add: join_split_on)
      qed
      with Cons p False ne show ?thesis by (auto split: if_splits)
    qed
  qed
qed

lemma split_on_join:
  "ls \<noteq> [] \<Longrightarrow> \<forall>l\<in>set ls. sep \<notin> set l \<Longrightarrow> split_on sep (join [sep] ls) = ls"
proof (induction ls)
  case Nil then show ?case by simp
next
  case (Cons l ls)
  show ?case
  proof (cases "ls = []")
    case True
    with Cons.prems show ?thesis by (simp add: split_on_no_sep)
  next
    case False
    with Cons show ?thesis by (simp add: join_Cons2 split_on_append)
  qed
qed

lemma split_paragraphs_nonempty: "split_paragraphs s \<noteq> []"
  by (induction s rule: split_paragraphs.induct) (auto split: list.splits)

lemma split_paragraphs_prefix:
  "0x0A \<notin> set a \<Longrightarrow>
   split_paragraphs (a @ rest) = (a @ hd (split_paragraphs rest)) # tl (split_paragraphs rest)"
proof (induction a)
  case Nil
  then show ?case using split_paragraphs_nonempty [of rest] by simp
next
  case (Cons c a)
  then show ?case by (simp split: list.splits)
qed

lemma split_paragraphs_single_nl:
  "rest = [] \<or> hd rest \<noteq> 0x0A \<Longrightarrow>
   split_paragraphs (0x0A # rest) = (0x0A # hd (split_paragraphs rest)) # tl (split_paragraphs rest)"
  using split_paragraphs_nonempty [of rest] by (auto split: list.splits)

lemma split_paragraphs_run:
  "split_paragraphs (0x0A # 0x0A # rest) = [] # split_paragraphs (dropWhile (\<lambda>d. d = 0x0A) rest)"
  by simp

lemma spec_blocks_dropWhile: "spec_blocks (dropWhile (\<lambda>l. l = []) ls) = spec_blocks ls"
  by (induction ls) simp_all

lemma spec_blocks_hd:
  "l \<noteq> [] \<Longrightarrow> \<exists>b bs. spec_blocks (l # ls) = (l # b) # bs"
  by (cases "spec_blocks ls") (auto)

lemma dropWhile_nl_join:
  assumes "ls \<noteq> []" "last ls \<noteq> []" "\<forall>l\<in>set ls. 0x0A \<notin> set l"
  shows "dropWhile (\<lambda>d. d = 0x0A) (join [0x0A] ls) = join [0x0A] (dropWhile (\<lambda>l. l = []) ls)"
  using assms
proof (induction ls)
  case Nil then show ?case by simp
next
  case (Cons l ls)
  show ?case
  proof (cases "ls = []")
    case True
    with Cons.prems show ?thesis by (cases l) auto
  next
    case False
    show ?thesis
    proof (cases "l = []")
      case True
      with False Cons show ?thesis by (simp add: join_Cons2)
    next
      case ne: False
      with Cons.prems have "hd l \<noteq> 0x0A" by (cases l) auto
      with ne False show ?thesis by (cases l) (simp_all add: join_Cons2)
    qed
  qed
qed

lemma split_paragraphs_join:
  assumes "ls \<noteq> []" "hd ls \<noteq> []" "last ls \<noteq> []" "\<forall>l\<in>set ls. 0x0A \<notin> set l"
  shows "split_paragraphs (join [0x0A] ls) = map (join [0x0A]) (spec_blocks ls)"
  using assms
proof (induction "length ls" arbitrary: ls rule: less_induct)
  case less
  from less.prems obtain l ls' where ls: "ls = l # ls'" and l: "l \<noteq> []" "0x0A \<notin> set l"
    by (cases ls) auto
  show ?case
  proof (cases ls')
    case Nil
    have "split_paragraphs (l @ []) = (l @ hd (split_paragraphs [])) # tl (split_paragraphs [])"
      using l(2) by (rule split_paragraphs_prefix)
    with ls Nil l show ?thesis by simp
  next
    case (Cons l' ls'')
    have join: "join [0x0A] ls = l @ 0x0A # join [0x0A] ls'"
      using ls Cons by simp
    have pre: "split_paragraphs (join [0x0A] ls) =
        (l @ hd (split_paragraphs (0x0A # join [0x0A] ls'))) # tl (split_paragraphs (0x0A # join [0x0A] ls'))"
      unfolding join using l(2) by (rule split_paragraphs_prefix)
    have last': "last ls' \<noteq> []" using less.prems ls Cons by simp
    have nonl': "\<forall>l\<in>set ls'. 0x0A \<notin> set l" using less.prems ls by simp
    show ?thesis
    proof (cases "l' = []")
      case False
      have ih: "split_paragraphs (join [0x0A] ls') = map (join [0x0A]) (spec_blocks ls')"
        using less.hyps [of ls'] ls Cons False last' nonl' by simp
      from False spec_blocks_hd [of l' ls''] Cons obtain b bs where b: "spec_blocks ls' = (l' # b) # bs"
        by auto
      have "hd (join [0x0A] ls') \<noteq> 0x0A"
        using False Cons nonl' by (cases l'; cases ls'') auto
      then have "split_paragraphs (0x0A # join [0x0A] ls') =
          (0x0A # hd (split_paragraphs (join [0x0A] ls'))) # tl (split_paragraphs (join [0x0A] ls'))"
        by (intro split_paragraphs_single_nl) simp
      with pre ih b have "split_paragraphs (join [0x0A] ls) =
          (l @ 0x0A # join [0x0A] (l' # b)) # map (join [0x0A]) bs" by simp
      moreover have "spec_blocks ls = (l # l' # b) # bs"
        using ls Cons l False b by simp
      ultimately show ?thesis by simp
    next
      case True
      with last' Cons have ne'': "ls'' \<noteq> []" by auto
      let ?m = "dropWhile (\<lambda>l. l = []) ls''"
      have last'': "last ls'' \<noteq> []" using last' Cons ne'' by simp
      have nonl'': "\<forall>l\<in>set ls''. 0x0A \<notin> set l" using nonl' Cons by simp
      have m_ne: "?m \<noteq> []"
      proof
        assume "?m = []"
        then have "\<forall>l\<in>set ls''. l = []" by (simp add: dropWhile_eq_Nil_conv)
        with ne'' have "last ls'' = []" by simp
        with last'' show False by simp
      qed
      then have hd_m: "hd ?m \<noteq> []" using hd_dropWhile [of "\<lambda>l. l = []" ls''] by simp
      have "\<exists>zs. ls'' = zs @ ?m" by (metis takeWhile_dropWhile_id)
      then obtain zs where zs: "ls'' = zs @ ?m" ..
      then have last_m: "last ?m \<noteq> []" using last'' m_ne by (metis last_appendR)
      have set_m: "\<forall>l\<in>set ?m. 0x0A \<notin> set l" using nonl'' by (auto dest: set_dropWhileD)
      have len: "length ?m < length ls"
        using ls Cons length_dropWhile_le [of "\<lambda>l. l = []" ls''] by simp
      have ih: "split_paragraphs (join [0x0A] ?m) = map (join [0x0A]) (spec_blocks ?m)"
        using less.hyps [OF len m_ne hd_m last_m set_m] .
      have "join [0x0A] ls' = 0x0A # join [0x0A] ls''"
        using Cons True ne'' by (simp add: join_Cons2)
      then have "split_paragraphs (0x0A # join [0x0A] ls') =
          [] # split_paragraphs (dropWhile (\<lambda>d. d = 0x0A) (join [0x0A] ls''))"
        by (simp only: split_paragraphs_run)
      also have "dropWhile (\<lambda>d. d = 0x0A) (join [0x0A] ls'') = join [0x0A] ?m"
        using ne'' last'' nonl'' by (rule dropWhile_nl_join)
      finally have "split_paragraphs (join [0x0A] ls) = l # map (join [0x0A]) (spec_blocks ?m)"
        using pre ih by simp
      moreover have "spec_blocks ls = [l] # spec_blocks ls''"
        using ls Cons True l by simp
      ultimately show ?thesis by (simp add: spec_blocks_dropWhile)
    qed
  qed
qed

lemma join_empty_sep: "join [] ps = concat ps"
proof (induction ps)
  case Nil then show ?case by simp
next
  case (Cons p ps)
  then show ?case by (cases ps) simp_all
qed

lemma spec_blocks_props: "b \<in> set (spec_blocks ls) \<Longrightarrow> b \<noteq> [] \<and> set b \<subseteq> set ls"
proof (induction ls arbitrary: b)
  case Nil then show ?case by simp
next
  case (Cons l ls)
  show ?case
  proof (cases "spec_blocks ls")
    case Nil
    with Cons show ?thesis by (auto split: if_splits)
  next
    case (Cons c cs)
    then have "c \<in> set (spec_blocks ls)" by simp
    from Cons.IH [OF this] have c: "c \<noteq> []" "set c \<subseteq> set ls" by simp_all
    from Cons.prems Cons
    consider "b \<in> set (spec_blocks ls)" | "b = [l]" | "b = l # c"
      by (auto split: if_splits)
    then show ?thesis
    proof cases
      case 1
      from Cons.IH [OF this] show ?thesis by auto
    next
      case 2
      then show ?thesis by simp
    next
      case 3
      with c show ?thesis by auto
    qed
  qed
qed

lemma concat_spec_blocks: "concat (spec_blocks ls) = filter (\<lambda>l. l \<noteq> []) ls"
proof (induction ls)
  case Nil then show ?case by simp
next
  case (Cons l ls)
  show ?case
  proof (cases "l \<noteq> [] \<and> ls \<noteq> [] \<and> hd ls \<noteq> []")
    case True
    then obtain b bs where "spec_blocks ls = b # bs"
      using spec_blocks_hd [of "hd ls" "tl ls"] by (cases ls) auto
    with True Cons show ?thesis by auto
  next
    case False
    with Cons show ?thesis by auto
  qed
qed

lemma normalizeText_render:
  "normalizeText v = spec_paragraphs (map (split_on 0x0A) (split_paragraphs v))"
proof -
  have "wrap_paragraph = (\<lambda>p. js ''<p>'' @ join (js ''<br>'') (split_on 0x0A p) @ js ''</p>'')"
    by (simp add: fun_eq_iff wrap_paragraph_def)
  then show ?thesis
    by (simp add: normalizeText_def spec_paragraphs_def join_empty_sep comp_def)
qed

lemmas eval_text =
  normalizeText_def wrap_paragraph_def spec_paragraphs_def hello_text_def js_def

text \<open>
  C8. Claimed: a raw text with \<open>N\<close> blocks separated by blank lines gives exactly \<open>N\<close>
  paragraph wrappers. Two newlines followed by \<^verbatim>\<open>Hello\<close> are one block, and give two wrappers,
  the first one empty: \<^verbatim>\<open>split\<close> returns the empty piece before the separator.
\<close>

theorem normalizeText_blocks_counterexample:
  "spec_blocks (split_on 0x0A ([0x0A, 0x0A] @ js ''Hello'')) = [[js ''Hello'']] \<and>
   split_paragraphs ([0x0A, 0x0A] @ js ''Hello'') = [[], js ''Hello''] \<and>
   normalizeText ([0x0A, 0x0A] @ js ''Hello'') = js ''<p></p><p>Hello</p>''"
  by (simp add: eval_text)

lemma normalizeText_core:
  assumes "v \<noteq> []" "hd v \<noteq> 0x0A" "last v \<noteq> 0x0A"
  shows "map (split_on 0x0A) (split_paragraphs v) = spec_blocks (split_on 0x0A v) \<and>
         length (split_paragraphs v) = length (spec_blocks (split_on 0x0A v)) \<and>
         normalizeText v = spec_paragraphs (spec_blocks (split_on 0x0A v)) \<and>
         concat (spec_blocks (split_on 0x0A v)) = filter (\<lambda>l. l \<noteq> []) (split_on 0x0A v)"
proof -
  let ?ls = "split_on 0x0A v"
  have ne: "?ls \<noteq> []" by (rule split_on_nonempty)
  have h: "hd ?ls \<noteq> []" using assms by (simp add: hd_split_on)
  have l: "last ?ls \<noteq> []" using assms by (simp add: last_split_on)
  have n: "\<forall>l\<in>set ?ls. 0x0A \<notin> set l" by (auto dest: split_on_lines_no_sep)
  have "split_paragraphs (join [0x0A] ?ls) = map (join [0x0A]) (spec_blocks ?ls)"
    using ne h l n by (rule split_paragraphs_join)
  then have sp: "split_paragraphs v = map (join [0x0A]) (spec_blocks ?ls)"
    by (simp add: join_split_on)
  have "map (split_on 0x0A) (map (join [0x0A]) (spec_blocks ?ls)) = spec_blocks ?ls"
  proof -
    have "\<forall>b\<in>set (spec_blocks ?ls). split_on 0x0A (join [0x0A] b) = b"
    proof
      fix b assume "b \<in> set (spec_blocks ?ls)"
      then have "b \<noteq> []" "set b \<subseteq> set ?ls" using spec_blocks_props by blast+
      with n have "\<forall>l\<in>set b. 0x0A \<notin> set l" by blast
      with \<open>b \<noteq> []\<close> show "split_on 0x0A (join [0x0A] b) = b" by (rule split_on_join)
    qed
    then show ?thesis by (simp add: map_idI)
  qed
  with sp have 1: "map (split_on 0x0A) (split_paragraphs v) = spec_blocks ?ls" by simp
  from sp have 2: "length (split_paragraphs v) = length (spec_blocks ?ls)" by simp
  from 1 have 3: "normalizeText v = spec_paragraphs (spec_blocks ?ls)"
    by (simp add: normalizeText_render)
  from 1 2 3 concat_spec_blocks [of ?ls] show ?thesis by blast
qed

lemma split_paragraphs_core:
  assumes "v \<noteq> []" "hd v \<noteq> 0x0A" "last v \<noteq> 0x0A"
  shows "map (split_on 0x0A) (split_paragraphs v) = spec_blocks (split_on 0x0A v)"
  using normalizeText_core [OF assms] by blast

lemma split_on_snoc_sep: "split_on sep (p @ [sep]) = split_on sep p @ [[]]"
proof (induction p)
  case Nil then show ?case by simp
next
  case (Cons c p)
  obtain q qs where "split_on sep p = q # qs"
    using split_on_nonempty [of sep p] by (cases "split_on sep p") auto
  with Cons show ?case by auto
qed

lemma nonblank_lines_nl_Cons: "nonblank_lines (0x0A # p) = nonblank_lines p"
  by (simp add: nonblank_lines_def)

lemma nonblank_lines_snoc_nl: "nonblank_lines (p @ [0x0A]) = nonblank_lines p"
  by (simp add: nonblank_lines_def split_on_snoc_sep)

lemma spec_blocks_snoc_blank: "spec_blocks (ls @ [[]]) = spec_blocks ls"
proof (induction ls)
  case Nil then show ?case by simp
next
  case (Cons l ls)
  then show ?case by (cases "ls = []") simp_all
qed

lemma spec_blocks_no_blank: "b \<in> set (spec_blocks ls) \<Longrightarrow> [] \<notin> set b"
proof (induction ls arbitrary: b)
  case Nil then show ?case by simp
next
  case (Cons l ls)
  show ?case
  proof (cases "spec_blocks ls")
    case Nil
    with Cons show ?thesis by (auto split: if_splits)
  next
    case (Cons c cs)
    then have "c \<in> set (spec_blocks ls)" by simp
    from Cons.IH [OF this] have c: "[] \<notin> set c" .
    from Cons.prems Cons
    consider "b \<in> set (spec_blocks ls)" | "b = [l] \<and> l \<noteq> []" | "b = l # c \<and> l \<noteq> []"
      by (auto split: if_splits)
    then show ?thesis
    proof cases
      case 1
      from Cons.IH [OF this] show ?thesis .
    next
      case 2
      then show ?thesis by auto
    next
      case 3
      with c show ?thesis by auto
    qed
  qed
qed

lemma dropWhile_snoc_keep:
  assumes "\<exists>x\<in>set xs. \<not> P x"
  shows "dropWhile P (xs @ ys) = dropWhile P xs @ ys"
  using assms by (induction xs) auto

lemma split_paragraphs_snoc_nl:
  assumes "x \<noteq> []" "last x \<noteq> 0x0A"
  shows "split_paragraphs (x @ [0x0A]) =
           butlast (split_paragraphs x) @ [last (split_paragraphs x) @ [0x0A]]"
  using assms
proof (induction x rule: split_paragraphs.induct)
  case 1
  then show ?case by simp
next
  case (2 c cs)
  show ?case
  proof (cases "c = 0x0A \<and> cs \<noteq> [] \<and> hd cs = 0x0A")
    case True
    let ?d = "dropWhile (\<lambda>d. d = 0x0A) cs"
    from True "2.prems" have lastcs: "last cs \<noteq> 0x0A" by simp
    with True have ex: "\<exists>x\<in>set cs. \<not> x = 0x0A" by (metis last_in_set)
    then have d: "dropWhile (\<lambda>d. d = 0x0A) (cs @ [0x0A]) = ?d @ [0x0A]"
      by (rule dropWhile_snoc_keep)
    from ex have dne: "?d \<noteq> []" by (simp add: dropWhile_eq_Nil_conv)
    have "\<exists>zs. cs = zs @ ?d" by (metis takeWhile_dropWhile_id)
    then obtain zs where "cs = zs @ ?d" ..
    with dne lastcs have lastd: "last ?d \<noteq> 0x0A" by (metis last_appendR)
    have ih: "split_paragraphs (?d @ [0x0A]) =
        butlast (split_paragraphs ?d) @ [last (split_paragraphs ?d) @ [0x0A]]"
      using "2.IH"(1) [OF True dne lastd] .
    have "split_paragraphs ((c # cs) @ [0x0A]) = [] # split_paragraphs (?d @ [0x0A])"
      using True d by simp
    moreover have "split_paragraphs (c # cs) = [] # split_paragraphs ?d"
      using True by simp
    ultimately show ?thesis using ih split_paragraphs_nonempty [of ?d] by simp
  next
    case False
    show ?thesis
    proof (cases "cs = []")
      case True
      with "2.prems" have "c \<noteq> 0x0A" by simp
      with True show ?thesis by simp
    next
      case ne: False
      with "2.prems" have lastcs: "last cs \<noteq> 0x0A" by simp
      have ih: "split_paragraphs (cs @ [0x0A]) =
          butlast (split_paragraphs cs) @ [last (split_paragraphs cs) @ [0x0A]]"
        using "2.IH"(2) [OF False ne lastcs] .
      obtain q qs where q: "split_paragraphs cs = q # qs"
        using split_paragraphs_nonempty [of cs] by (cases "split_paragraphs cs") auto
      from False ne have F': "\<not> (c = 0x0A \<and> cs @ [0x0A] \<noteq> [] \<and> hd (cs @ [0x0A]) = 0x0A)"
        by simp
      have "split_paragraphs ((c # cs) @ [0x0A]) =
          (case split_paragraphs (cs @ [0x0A]) of [] \<Rightarrow> [[c]] | q # qs \<Rightarrow> (c # q) # qs)"
        by (simp only: append_Cons split_paragraphs.simps F' if_False)
      moreover have "split_paragraphs (c # cs) = (c # q) # qs"
        using False q by simp
      ultimately show ?thesis using ih q by (cases "qs = []") simp_all
    qed
  qed
qed

lemma join_split_on_replace:
  "join sep (split_on c p) = concat (map (\<lambda>x. if x = c then sep else [x]) p)"
proof (induction p)
  case Nil then show ?case by simp
next
  case (Cons x p)
  obtain q qs where q: "split_on c p = q # qs"
    using split_on_nonempty [of c p] by (cases "split_on c p") auto
  with Cons show ?case by (simp add: join_Cons_hd join_Cons2)
qed

lemma text_decomposition:
  fixes v :: jsstring
  assumes "\<exists>c\<in>set v. c \<noteq> 0x0A" "\<not> prefix [0x0A, 0x0A] v" "\<not> suffix [0x0A, 0x0A] v"
  shows "\<exists>pre core post. v = pre @ core @ post \<and> (pre = [] \<or> pre = [0x0A]) \<and>
           (post = [] \<or> post = [0x0A]) \<and> core \<noteq> [] \<and> hd core \<noteq> 0x0A \<and> last core \<noteq> 0x0A"
proof -
  from assms(1) have vne: "v \<noteq> []" by auto
  have "\<exists>pre w. v = pre @ w \<and> (pre = [] \<or> pre = [0x0A]) \<and> w \<noteq> [] \<and> hd w \<noteq> 0x0A"
  proof (cases "hd v = 0x0A")
    case False
    with vne show ?thesis by (intro exI [of _ "[]"] exI [of _ v]) simp
  next
    case True
    with vne have v: "v = 0x0A # tl v" by (cases v) auto
    have "tl v \<noteq> []"
    proof
      assume "tl v = []"
      with v have "v = [0x0A]" by simp
      with assms(1) show False by simp
    qed
    moreover have "hd (tl v) \<noteq> 0x0A"
    proof
      assume "hd (tl v) = 0x0A"
      with \<open>tl v \<noteq> []\<close> have "tl v = 0x0A # tl (tl v)" by (cases "tl v") auto
      with v have "v = [0x0A, 0x0A] @ tl (tl v)" by simp
      then have "prefix [0x0A, 0x0A] v" by (metis prefixI)
      with assms(2) show False by simp
    qed
    ultimately show ?thesis using v by (intro exI [of _ "[0x0A]"] exI [of _ "tl v"]) simp
  qed
  then obtain pre w where w: "v = pre @ w" "pre = [] \<or> pre = [0x0A]" "w \<noteq> []" "hd w \<noteq> 0x0A"
    by blast
  have "\<exists>core post. w = core @ post \<and> (post = [] \<or> post = [0x0A]) \<and> core \<noteq> [] \<and>
          hd core \<noteq> 0x0A \<and> last core \<noteq> 0x0A"
  proof (cases "last w = 0x0A")
    case False
    with w show ?thesis by (intro exI [of _ w] exI [of _ "[]"]) simp
  next
    case True
    with w(3) have ws: "w = butlast w @ [0x0A]" by (metis append_butlast_last_id)
    have bne: "butlast w \<noteq> []"
    proof
      assume "butlast w = []"
      with ws have "w = [0x0A]" by simp
      with w(4) show False by simp
    qed
    have "last (butlast w) \<noteq> 0x0A"
    proof
      assume "last (butlast w) = 0x0A"
      with bne have "butlast w = butlast (butlast w) @ [0x0A]" by (metis append_butlast_last_id)
      with ws have "w = butlast (butlast w) @ [0x0A, 0x0A]" by (metis append.assoc append_Cons append_Nil)
      with w(1) have "v = (pre @ butlast (butlast w)) @ [0x0A, 0x0A]" by simp
      then have "suffix [0x0A, 0x0A] v" by (metis suffixI)
      with assms(3) show False by simp
    qed
    moreover have "hd (butlast w) \<noteq> 0x0A"
      using bne ws w(4) by (metis hd_append2)
    ultimately show ?thesis using ws bne
      by (intro exI [of _ "butlast w"] exI [of _ "[0x0A]"]) simp
  qed
  then obtain core post where "w = core @ post" "post = [] \<or> post = [0x0A]" "core \<noteq> []"
      "hd core \<noteq> 0x0A" "last core \<noteq> 0x0A"
    by blast
  with w show ?thesis by blast
qed

lemma map_nonblank_lines_core:
  assumes "core \<noteq> []" "hd core \<noteq> 0x0A" "last core \<noteq> 0x0A"
  shows "map nonblank_lines (split_paragraphs core) = spec_blocks (split_on 0x0A core)"
proof -
  have "map nonblank_lines (split_paragraphs core) =
      map (filter (\<lambda>l. l \<noteq> [])) (map (split_on 0x0A) (split_paragraphs core))"
    by (simp add: nonblank_lines_def comp_def)
  also have "\<dots> = map (filter (\<lambda>l. l \<noteq> [])) (spec_blocks (split_on 0x0A core))"
    by (simp only: split_paragraphs_core [OF assms])
  also have "\<dots> = spec_blocks (split_on 0x0A core)"
  proof -
    have "\<forall>b\<in>set (spec_blocks (split_on 0x0A core)). filter (\<lambda>l. l \<noteq> []) b = b"
    proof
      fix b assume "b \<in> set (spec_blocks (split_on 0x0A core))"
      then have "[] \<notin> set b" by (rule spec_blocks_no_blank)
      then show "filter (\<lambda>l. l \<noteq> []) b = b" by (auto simp: filter_id_conv)
    qed
    then show ?thesis by (simp add: map_idI)
  qed
  finally show ?thesis .
qed

lemma map_nonblank_lines_edges:
  assumes "pre = [] \<or> pre = [0x0A]" "post = [] \<or> post = [0x0A]"
    and "core \<noteq> []" "hd core \<noteq> 0x0A" "last core \<noteq> 0x0A"
  shows "map nonblank_lines (split_paragraphs (pre @ core @ post)) =
           map nonblank_lines (split_paragraphs core)"
    and "spec_blocks (split_on 0x0A (pre @ core @ post)) = spec_blocks (split_on 0x0A core)"
proof -
  let ?x = "pre @ core"
  have xne: "?x \<noteq> []" using assms(3) by simp
  have xlast: "last ?x \<noteq> 0x0A" using assms(3,5) by simp
  have front: "map nonblank_lines (split_paragraphs ?x) = map nonblank_lines (split_paragraphs core)"
  proof (cases "pre = []")
    case True then show ?thesis by simp
  next
    case False
    with assms(1) have pre: "pre = [0x0A]" by simp
    have "split_paragraphs (0x0A # core) =
        (0x0A # hd (split_paragraphs core)) # tl (split_paragraphs core)"
      using assms(4) by (intro split_paragraphs_single_nl) simp
    then have "map nonblank_lines (split_paragraphs (0x0A # core)) =
        nonblank_lines (hd (split_paragraphs core)) # map nonblank_lines (tl (split_paragraphs core))"
      by (simp add: nonblank_lines_nl_Cons)
    also have "\<dots> = map nonblank_lines (split_paragraphs core)"
      using split_paragraphs_nonempty [of core] by (cases "split_paragraphs core") simp_all
    finally show ?thesis using pre by simp
  qed
  have rear: "map nonblank_lines (split_paragraphs (?x @ post)) =
      map nonblank_lines (split_paragraphs ?x)"
  proof (cases "post = []")
    case True then show ?thesis by simp
  next
    case False
    with assms(2) have post: "post = [0x0A]" by simp
    have "split_paragraphs (?x @ [0x0A]) =
        butlast (split_paragraphs ?x) @ [last (split_paragraphs ?x) @ [0x0A]]"
      using xne xlast by (rule split_paragraphs_snoc_nl)
    then have "map nonblank_lines (split_paragraphs (?x @ [0x0A])) =
        map nonblank_lines (butlast (split_paragraphs ?x) @ [last (split_paragraphs ?x)])"
      by (simp add: nonblank_lines_snoc_nl)
    also have "butlast (split_paragraphs ?x) @ [last (split_paragraphs ?x)] = split_paragraphs ?x"
      using split_paragraphs_nonempty [of ?x] by (rule append_butlast_last_id)
    finally show ?thesis using post by simp
  qed
  from front rear show "map nonblank_lines (split_paragraphs (pre @ core @ post)) =
           map nonblank_lines (split_paragraphs core)" by simp
  have f: "spec_blocks (split_on 0x0A ?x) = spec_blocks (split_on 0x0A core)"
    using assms(1) by auto
  have "spec_blocks (split_on 0x0A (?x @ post)) = spec_blocks (split_on 0x0A ?x)"
  proof (cases "post = []")
    case True then show ?thesis by simp
  next
    case False
    with assms(2) have "post = [0x0A]" by simp
    then show ?thesis by (simp only: split_on_snoc_sep spec_blocks_snoc_blank)
  qed
  with f show "spec_blocks (split_on 0x0A (pre @ core @ post)) = spec_blocks (split_on 0x0A core)"
    by simp
qed

text \<open>
  C8, amended. For a raw text that has some character other than a newline and neither
  begins nor ends with two newlines, the pieces the code wraps correspond to the blocks, in
  order: there are as many wrappers as blocks, the lines of each piece that are not blank
  are the lines of its block, inside each wrapper every newline of the piece has become
  \<^verbatim>\<open><br>\<close>, and the lines of the blocks are all the non-blank lines of the text. When the text
  neither begins nor ends with a newline at all, the result is exactly the blocks, each with
  its lines joined by \<^verbatim>\<open><br>\<close> in a \<^verbatim>\<open><p>\<close> wrapper.
\<close>

theorem normalizeText_blocks:
  assumes "\<exists>c\<in>set v. c \<noteq> 0x0A" and "\<not> prefix [0x0A, 0x0A] v" and "\<not> suffix [0x0A, 0x0A] v"
  shows "map nonblank_lines (split_paragraphs v) = spec_blocks (split_on 0x0A v) \<and>
         length (split_paragraphs v) = length (spec_blocks (split_on 0x0A v)) \<and>
         normalizeText v =
           concat (map (\<lambda>p. js ''<p>'' @ concat (map (\<lambda>c. if c = 0x0A then js ''<br>'' else [c]) p)
                                @ js ''</p>'') (split_paragraphs v)) \<and>
         concat (spec_blocks (split_on 0x0A v)) = nonblank_lines v \<and>
         (hd v \<noteq> 0x0A \<and> last v \<noteq> 0x0A \<longrightarrow>
            normalizeText v = spec_paragraphs (spec_blocks (split_on 0x0A v)))"
proof -
  from text_decomposition [OF assms] obtain pre core post where
    v: "v = pre @ core @ post" and e: "pre = [] \<or> pre = [0x0A]" "post = [] \<or> post = [0x0A]"
    and c: "core \<noteq> []" "hd core \<noteq> 0x0A" "last core \<noteq> 0x0A"
    by blast
  have 1: "map nonblank_lines (split_paragraphs v) = spec_blocks (split_on 0x0A v)"
    unfolding v
    by (simp only: map_nonblank_lines_edges [OF e c] map_nonblank_lines_core [OF c])
  then have "length (map nonblank_lines (split_paragraphs v)) =
      length (spec_blocks (split_on 0x0A v))" by (rule arg_cong)
  then have 2: "length (split_paragraphs v) = length (spec_blocks (split_on 0x0A v))" by simp
  have "wrap_paragraph = (\<lambda>p. js ''<p>'' @
      concat (map (\<lambda>c. if c = 0x0A then js ''<br>'' else [c]) p) @ js ''</p>'')"
    by (simp add: fun_eq_iff wrap_paragraph_def join_split_on_replace)
  then have 3: "normalizeText v =
           concat (map (\<lambda>p. js ''<p>'' @ concat (map (\<lambda>c. if c = 0x0A then js ''<br>'' else [c]) p)
                                @ js ''</p>'') (split_paragraphs v))"
    by (simp add: normalizeText_def join_empty_sep)
  have 4: "concat (spec_blocks (split_on 0x0A v)) = nonblank_lines v"
    by (simp add: concat_spec_blocks nonblank_lines_def)
  have 5: "hd v \<noteq> 0x0A \<and> last v \<noteq> 0x0A \<longrightarrow>
            normalizeText v = spec_paragraphs (spec_blocks (split_on 0x0A v))"
  proof
    assume h: "hd v \<noteq> 0x0A \<and> last v \<noteq> 0x0A"
    from assms(1) have "v \<noteq> []" by auto
    with h have "map (split_on 0x0A) (split_paragraphs v) = spec_blocks (split_on 0x0A v)"
      by (intro split_paragraphs_core) simp_all
    then show "normalizeText v = spec_paragraphs (spec_blocks (split_on 0x0A v))"
      by (simp add: normalizeText_render)
  qed
  from 1 2 3 4 5 show ?thesis by (intro conjI)
qed

theorem normalizeText_blocks_witness:
  "spec_blocks (split_on 0x0A hello_text) = [[js ''Hello world.''], [js ''Second paragraph.'']] \<and>
   normalizeText hello_text = js ''<p>Hello world.</p><p>Second paragraph.</p>'' \<and>
   spec_blocks (split_on 0x0A ([0x0A] @ js ''a'' @ [0x0A, 0x0A, 0x0A] @ js ''b'' @ [0x0A])) =
     [[js ''a''], [js ''b'']] \<and>
   normalizeText ([0x0A] @ js ''a'' @ [0x0A, 0x0A, 0x0A] @ js ''b'' @ [0x0A]) =
     js ''<p><br>a</p><p>b<br></p>''"
proof -
  have a: "\<exists>c\<in>set hello_text. c \<noteq> 0x0A" "\<not> prefix [0x0A, 0x0A] hello_text"
    "\<not> suffix [0x0A, 0x0A] hello_text"
    by (simp_all add: hello_text_def js_def suffix_to_prefix)
  have e: "hd hello_text \<noteq> 0x0A \<and> last hello_text \<noteq> 0x0A"
    by (simp add: hello_text_def js_def)
  have b: "spec_blocks (split_on 0x0A hello_text) = [[js ''Hello world.''], [js ''Second paragraph.'']]"
    by (simp add: eval_text)
  from normalizeText_blocks [OF a] e
  have "normalizeText hello_text = spec_paragraphs (spec_blocks (split_on 0x0A hello_text))"
    by blast
  also have "\<dots> = js ''<p>Hello world.</p><p>Second paragraph.</p>''"
    unfolding b by (simp add: spec_paragraphs_def js_def)
  finally have c: "normalizeText hello_text = js ''<p>Hello world.</p><p>Second paragraph.</p>''" .
  have d: "spec_blocks (split_on 0x0A ([0x0A] @ js ''a'' @ [0x0A, 0x0A, 0x0A] @ js ''b'' @ [0x0A])) =
     [[js ''a''], [js ''b'']]"
    by (simp add: eval_text)
  have f: "normalizeText ([0x0A] @ js ''a'' @ [0x0A, 0x0A, 0x0A] @ js ''b'' @ [0x0A]) =
     js ''<p><br>a</p><p>b<br></p>''"
    by (simp add: eval_text)
  from b c d f show ?thesis by (intro conjI)
qed

end
